theory Spec2Isabelle
  imports
    Complex_Main
    "HOL-Library.Char_ord"
    "HOL-Library.List_Lexorder"
    "HOL-Library.Multiset"
begin

section \<open>The playbook: bullets\<close>

text \<open>
  A shallow embedding of \<^verbatim>\<open>subconscious-daemon/playbook.py\<close>. Python's \<^verbatim>\<open>int\<close> is
  \<^typ>\<open>int\<close>, its \<^verbatim>\<open>float\<close> is idealised as \<^typ>\<open>real\<close> (no rounding), and a \<^verbatim>\<open>str\<close> is a
  \<^typ>\<open>string\<close> whose characters stand for code points below 256.  The field
  \<^verbatim>\<open>id\<close> is called \<open>bullet_id\<close> and \<^verbatim>\<open>section\<close> is called \<open>bsection\<close>, because the
  source's names are taken in HOL.
\<close>

record bullet =
  bullet_id :: string
  content :: string
  bsection :: string
  helpful_count :: int
  harmful_count :: int
  source_session :: string
  added :: string
  last_referenced :: string
  last_validated :: string

definition total_references :: "bullet \<Rightarrow> int" where
  "total_references b = helpful_count b + harmful_count b"

definition quality_ratio :: "bullet \<Rightarrow> real" where
  "quality_ratio b =
     (let total = helpful_count b + harmful_count b
      in if total = 0 then 0.5 else real_of_int (helpful_count b) / real_of_int total)"

section \<open>The playbook: sections and metadata\<close>

text \<open>
  \<^verbatim>\<open>Playbook.sections\<close> is a dict from section name to a list of bullets; it is an
  association list in insertion order here (a dict has no duplicate keys).  The three
  metadata counters are fields of the record.
\<close>

record playbook =
  sections :: "(string \<times> bullet list) list"
  next_ids :: "(string \<times> int) list"
  total_sessions_analyzed :: int
  total_deltas_applied :: int
  total_bullets_pruned :: int

text \<open>The exceptions of the source that are not caught where they arise.\<close>

datatype error = AttributeError | TypeError | ValueError | OverflowError

subsection \<open>Pruning\<close>

definition should_prune :: "bullet \<Rightarrow> string \<Rightarrow> real \<Rightarrow> bool" where
  "should_prune b cutoff min_quality =
     (if total_references b < 5 then False
      else if quality_ratio b < min_quality then True
      else if last_referenced b < cutoff \<and> total_references b < 3 then True
      else False)"

fun prune_sections ::
  "string \<Rightarrow> real \<Rightarrow> (string \<times> bullet list) list \<Rightarrow> (string \<times> bullet list) list \<times> int" where
  "prune_sections cutoff min_quality [] = ([], 0)"
| "prune_sections cutoff min_quality ((section_name, bs) # rest) =
     (let kept = filter (\<lambda>b. \<not> should_prune b cutoff min_quality) bs;
          (rest', pruned) = prune_sections cutoff min_quality rest
      in ((section_name, kept) # rest', (int (length bs) - int (length kept)) + pruned))"

text \<open>
  \<^verbatim>\<open>prune_stale\<close> computes the cutoff as
  \<^verbatim>\<open>(datetime.now() - timedelta(days=stale_days)).isoformat()\<close>.  A day is its ordinal
  here: day 1 is 0001-01-01 and day 3652059 is 9999-12-31, the range of \<^verbatim>\<open>datetime\<close>.
  \<^verbatim>\<open>timedelta\<close> raises \<^verbatim>\<open>OverflowError\<close> beyond 999999999 days, and the subtraction raises
  it when the day leaves the range; nothing is pruned then.  \<open>today\<close> is the day of
  \<^verbatim>\<open>datetime.now()\<close>, and the formatting of the cutoff day (with the time of day of now)
  is the parameter \<open>isoformat\<close>.  The function returns the new playbook and the number
  of bullets pruned; \<^verbatim>\<open>save()\<close> is not modelled.
\<close>

definition cutoff_day :: "int \<Rightarrow> int \<Rightarrow> error + int" where
  "cutoff_day today stale_days =
     (if stale_days < - 999999999 \<or> 999999999 < stale_days then Inl OverflowError
      else if today - stale_days < 1 \<or> 3652059 < today - stale_days then Inl OverflowError
      else Inr (today - stale_days))"

definition prune_stale ::
  "(int \<Rightarrow> string) \<Rightarrow> int \<Rightarrow> int \<Rightarrow> real \<Rightarrow> playbook \<Rightarrow> error + playbook \<times> int" where
  "prune_stale isoformat today stale_days min_quality pb =
     (case cutoff_day today stale_days of
        Inl e \<Rightarrow> Inl e
      | Inr day \<Rightarrow>
          (let cutoff = isoformat day;
               (secs, pruned) = prune_sections cutoff min_quality (sections pb)
           in if pruned \<noteq> 0
              then Inr (pb\<lparr>sections := secs,
                           total_bullets_pruned := total_bullets_pruned pb + pruned\<rparr>, pruned)
              else Inr (pb\<lparr>sections := secs\<rparr>, pruned)))"

subsection \<open>Text similarity\<close>

text \<open>
  \<^verbatim>\<open>str.lower()\<close> and \<^verbatim>\<open>str.split()\<close> on code points below 256: the upper-case letters
  are A to Z and U+00C0 to U+00DE without the multiplication sign U+00D7, and the
  white space that \<^verbatim>\<open>split()\<close> cuts at is U+0009 to U+000D, U+001C to U+0020, U+0085 and
  U+00A0.
\<close>

definition lower_char :: "char \<Rightarrow> char" where
  "lower_char c =
     (let n = (of_char c :: nat)
      in if (65 \<le> n \<and> n \<le> 90) \<or> (192 \<le> n \<and> n \<le> 222 \<and> n \<noteq> 215)
         then char_of (n + 32) else c)"

definition str_lower :: "string \<Rightarrow> string" where
  "str_lower s = map lower_char s"

definition is_space :: "char \<Rightarrow> bool" where
  "is_space c =
     (let n = (of_char c :: nat)
      in (9 \<le> n \<and> n \<le> 13) \<or> (28 \<le> n \<and> n \<le> 32) \<or> n = 133 \<or> n = 160)"

text \<open>\<open>split_from w s\<close>: the words of \<open>s\<close>, where \<open>w\<close> is the word being read, reversed.\<close>

fun split_from :: "string \<Rightarrow> string \<Rightarrow> string list" where
  "split_from w [] = (if w = [] then [] else [rev w])"
| "split_from w (c # cs) =
     (if is_space c then (if w = [] then split_from [] cs else rev w # split_from [] cs)
      else split_from (c # w) cs)"

definition str_split :: "string \<Rightarrow> string list" where
  "str_split s = split_from [] s"

definition text_similarity :: "string \<Rightarrow> string \<Rightarrow> real" where
  "text_similarity a b =
     (let words_a = set (str_split (str_lower a));
          words_b = set (str_split (str_lower b))
      in if words_a = {} \<or> words_b = {} then 0
         else real (card (words_a \<inter> words_b)) / real (card (words_a \<union> words_b)))"

subsection \<open>Deduplication\<close>

text \<open>
  The two nested loops of \<^verbatim>\<open>deduplicate\<close> run over the indices of one section's list;
  their state is the list (whose bullets are updated in place) and the set
  \<^verbatim>\<open>to_remove\<close>.  \<open>dedup_pair\<close> is the body of the inner loop at the pair \<open>(i, j)\<close>,
  \<open>dedup_inner\<close> the inner loop, \<open>dedup_outer\<close> the body of the outer loop.  Both
  indices stay below the length of the list.
\<close>

definition merge_counts :: "bullet \<Rightarrow> bullet \<Rightarrow> bullet" where
  "merge_counts survivor loser =
     survivor\<lparr>helpful_count := helpful_count survivor + helpful_count loser,
              harmful_count := harmful_count survivor + harmful_count loser\<rparr>"

definition dedup_pair ::
  "real \<Rightarrow> nat \<Rightarrow> nat \<Rightarrow> bullet list \<times> nat set \<Rightarrow> bullet list \<times> nat set" where
  "dedup_pair similarity_threshold i j st =
     (case st of (bullets, to_remove) \<Rightarrow>
        if j \<in> to_remove then st
        else if text_similarity (content (bullets ! i)) (content (bullets ! j))
                  \<ge> similarity_threshold
        then (if quality_ratio (bullets ! i) \<ge> quality_ratio (bullets ! j)
              then (bullets[i := merge_counts (bullets ! i) (bullets ! j)], insert j to_remove)
              else (bullets[j := merge_counts (bullets ! j) (bullets ! i)], insert i to_remove))
        else st)"

definition dedup_inner ::
  "real \<Rightarrow> nat \<Rightarrow> bullet list \<times> nat set \<Rightarrow> bullet list \<times> nat set" where
  "dedup_inner similarity_threshold i st =
     fold (dedup_pair similarity_threshold i) [Suc i..<length (fst st)] st"

definition dedup_outer ::
  "real \<Rightarrow> nat \<Rightarrow> bullet list \<times> nat set \<Rightarrow> bullet list \<times> nat set" where
  "dedup_outer similarity_threshold i st =
     (if i \<in> snd st then st else dedup_inner similarity_threshold i st)"

definition dedup_marks :: "real \<Rightarrow> bullet list \<Rightarrow> bullet list \<times> nat set" where
  "dedup_marks similarity_threshold bullets =
     fold (dedup_outer similarity_threshold) [0..<length bullets] (bullets, {})"

text \<open>One section: the new list and the number of bullets removed from it.\<close>

definition dedup_section :: "real \<Rightarrow> bullet list \<Rightarrow> bullet list \<times> nat" where
  "dedup_section similarity_threshold bullets =
     (if length bullets < 2 then (bullets, 0)
      else case dedup_marks similarity_threshold bullets of (bullets', to_remove) \<Rightarrow>
        if to_remove \<noteq> {}
        then (map snd (filter (\<lambda>(idx, b). idx \<notin> to_remove) (enumerate 0 bullets')),
              card to_remove)
        else (bullets', 0))"

fun dedup_sections ::
  "real \<Rightarrow> (string \<times> bullet list) list \<Rightarrow> (string \<times> bullet list) list \<times> nat" where
  "dedup_sections similarity_threshold [] = ([], 0)"
| "dedup_sections similarity_threshold ((section_name, bs) # rest) =
     (let (bs', r) = dedup_section similarity_threshold bs;
          (rest', removed) = dedup_sections similarity_threshold rest
      in ((section_name, bs') # rest', r + removed))"

definition deduplicate :: "real \<Rightarrow> playbook \<Rightarrow> playbook \<times> nat" where
  "deduplicate similarity_threshold pb =
     (let (secs, removed) = dedup_sections similarity_threshold (sections pb)
      in if removed \<noteq> 0
         then (pb\<lparr>sections := secs,
                  total_bullets_pruned := total_bullets_pruned pb + int removed\<rparr>, removed)
         else (pb\<lparr>sections := secs\<rparr>, removed))"

subsection \<open>Selection and export\<close>

text \<open>\<^verbatim>\<open>math.log1p(x)\<close> raises \<^verbatim>\<open>ValueError\<close> unless \<open>x > -1\<close>.\<close>

definition log1p :: "real \<Rightarrow> error + real" where
  "log1p x = (if x \<le> -1 then Inl ValueError else Inr (ln (1 + x)))"

text \<open>The sort key of \<^verbatim>\<open>get_top_bullets\<close> and \<^verbatim>\<open>export_for_agent\<close>, as the code computes it.\<close>

definition score :: "bullet \<Rightarrow> error + real" where
  "score b =
     (case log1p (real_of_int (total_references b + 1)) of
        Inl e \<Rightarrow> Inl e
      | Inr l \<Rightarrow> Inr (quality_ratio b * l))"

text \<open>Pairing every bullet with its key; the first key that raises ends the call.\<close>

fun scored :: "bullet list \<Rightarrow> error + (real \<times> bullet) list" where
  "scored [] = Inr []"
| "scored (b # bs) =
     (case score b of
        Inl e \<Rightarrow> Inl e
      | Inr k \<Rightarrow> (case scored bs of Inl e \<Rightarrow> Inl e | Inr kbs \<Rightarrow> Inr ((k, b) # kbs)))"

text \<open>
  \<^verbatim>\<open>sort(key=..., reverse=True)\<close> is stable: bullets of equal key keep their order.  It is
  the stable ascending sort on the negated key.
\<close>

definition sort_by_score_desc :: "bullet list \<Rightarrow> error + bullet list" where
  "sort_by_score_desc bs =
     (case scored bs of
        Inl e \<Rightarrow> Inl e
      | Inr kbs \<Rightarrow> Inr (map snd (sort_key (\<lambda>kb. - fst kb) kbs)))"

text \<open>The slice \<^verbatim>\<open>xs[:n]\<close>; a negative \<open>n\<close> drops the last \<open>-n\<close> elements.\<close>

definition slice_to :: "int \<Rightarrow> 'a list \<Rightarrow> 'a list" where
  "slice_to n xs = (if 0 \<le> n then take (nat n) xs else take (length xs - nat (- n)) xs)"

definition get_top_bullets :: "int \<Rightarrow> string option \<Rightarrow> playbook \<Rightarrow> error + bullet list" where
  "get_top_bullets n section_filter pb =
     (let candidates =
            concat (map snd (filter (\<lambda>(section_name, bs).
              \<not> (case section_filter of
                     None \<Rightarrow> False
                   | Some f \<Rightarrow> f \<noteq> [] \<and> section_name \<noteq> f)) (sections pb)))
      in case sort_by_score_desc candidates of
           Inl e \<Rightarrow> Inl e
         | Inr sorted_bs \<Rightarrow> Inr (slice_to n sorted_bs))"

definition role_sections :: "string \<Rightarrow> string list option" where
  "role_sections role =
     (if role = ''planner'' then Some [''architecture'', ''build_ordering'', ''general'']
      else if role = ''builder'' then
        Some [''import_resolution'', ''flask_patterns'', ''dataclass_patterns'',
              ''sqlite_patterns'', ''stdlib_usage'', ''error_recovery'', ''general'']
      else if role = ''test_gen'' then Some [''test_generation'', ''import_resolution'', ''general'']
      else if role = ''initializer'' then Some [''architecture'', ''general'']
      else if role = ''explorer'' then Some [''architecture'', ''general'']
      else None)"

text \<open>
  The first line of the export.  The source has an em dash between \<^verbatim>\<open>patterns\<close> and
  \<^verbatim>\<open>follow\<close>: one code point, for which the character 151 stands here, so that the line
  has the 53 characters that \<^verbatim>\<open>len\<close> counts.
\<close>

definition header :: string where
  "header = ''## Coding Playbook (learned patterns '' @ [char_of (151 :: nat)] @
            '' follow these)'' @ [CHR 0x0A]"

definition bullet_line :: "bullet \<Rightarrow> string" where
  "bullet_line b = ''- ['' @ bullet_id b @ ''] '' @ content b @ [CHR 0x0A]"

text \<open>The loop that appends lines: it ends at the first line that does not fit.\<close>

fun append_lines :: "int \<Rightarrow> int \<Rightarrow> bullet list \<Rightarrow> string list" where
  "append_lines char_budget char_count [] = []"
| "append_lines char_budget char_count (b # bs) =
     (let line = bullet_line b
      in if char_count + int (length line) > char_budget then []
         else line # append_lines char_budget (char_count + int (length line)) bs)"

definition relevant_bullets :: "string \<Rightarrow> playbook \<Rightarrow> bullet list" where
  "relevant_bullets role pb =
     (let relevant_sections =
            (case role_sections role of
               Some secs \<Rightarrow> secs
             | None \<Rightarrow> map fst (sections pb))
      in concat (map (\<lambda>s. case map_of (sections pb) s of None \<Rightarrow> [] | Some bs \<Rightarrow> bs)
                     relevant_sections))"

definition export_for_agent :: "string \<Rightarrow> int \<Rightarrow> playbook \<Rightarrow> error + string" where
  "export_for_agent role max_tokens pb =
     (case sort_by_score_desc (relevant_bullets role pb) of
        Inl e \<Rightarrow> Inl e
      | Inr bs \<Rightarrow>
          Inr (concat (header # append_lines (max_tokens * 4) (int (length header)) bs)))"

text \<open>
  The score as the comment in \<^verbatim>\<open>get_top_bullets\<close> and the specification give it:
  \<open>quality_ratio * log(1 + total_references)\<close>.
\<close>

definition documented_score :: "bullet \<Rightarrow> real" where
  "documented_score b = quality_ratio b * ln (1 + real_of_int (total_references b))"

section \<open>The session scanner\<close>

text \<open>
  A shallow embedding of \<^verbatim>\<open>subconscious-daemon/session_scanner.py\<close>.  What
  \<^verbatim>\<open>json.loads\<close> returns is a value of \<open>json\<close> (an object is the association list of
  its members); a file that the code reads and parses is \<open>Missing\<close>, \<open>Garbled\<close> (its
  text raises \<^verbatim>\<open>JSONDecodeError\<close>) or a \<open>Document\<close>.
\<close>

datatype json =
    JNull
  | JBool bool
  | JNum real
  | JStr string
  | JArr "json list"
  | JObj "(string \<times> json) list"

datatype json_file = Missing | Garbled | Document json

text \<open>Python's truth value of a parsed value.\<close>

fun truthy :: "json \<Rightarrow> bool" where
  "truthy JNull = False"
| "truthy (JBool b) = b"
| "truthy (JNum x) = (x \<noteq> 0)"
| "truthy (JStr s) = (s \<noteq> [])"
| "truthy (JArr xs) = (xs \<noteq> [])"
| "truthy (JObj kvs) = (kvs \<noteq> [])"

text \<open>
  \<^verbatim>\<open>d.get(k, default)\<close>: only a dict has the method, and every other value raises
  \<^verbatim>\<open>AttributeError\<close>.  \<open>member_or\<close> is the lookup in the members of a dict.
\<close>

definition member_or :: "(string \<times> json) list \<Rightarrow> string \<Rightarrow> json \<Rightarrow> json" where
  "member_or kvs k dflt = (case map_of kvs k of None \<Rightarrow> dflt | Some v \<Rightarrow> v)"

fun dict_get :: "json \<Rightarrow> string \<Rightarrow> json \<Rightarrow> error + json" where
  "dict_get (JObj kvs) k dflt = Inr (member_or kvs k dflt)"
| "dict_get _ k dflt = Inl AttributeError"

text \<open>The values that a \<^verbatim>\<open>for\<close> loop over a parsed value visits.\<close>

fun py_iter :: "json \<Rightarrow> error + json list" where
  "py_iter (JArr xs) = Inr xs"
| "py_iter (JObj kvs) = Inr (map (\<lambda>kv. JStr (fst kv)) kvs)"
| "py_iter (JStr s) = Inr (map (\<lambda>c. JStr [c]) s)"
| "py_iter _ = Inl TypeError"

text \<open>\<^verbatim>\<open>sum(1 for c in dod_criteria if c.get("passed", False))\<close>\<close>

fun count_passed :: "json list \<Rightarrow> error + nat" where
  "count_passed [] = Inr 0"
| "count_passed (c # cs) =
     (case dict_get c ''passed'' (JBool False) of
        Inl e \<Rightarrow> Inl e
      | Inr p \<Rightarrow>
          (case count_passed cs of
             Inl e \<Rightarrow> Inl e
           | Inr n \<Rightarrow> Inr (if truthy p then Suc n else n)))"

text \<open>
  The fields of \<^verbatim>\<open>SessionTrace\<close> that \<^verbatim>\<open>parse_session\<close> fills from the completion
  marker \<^verbatim>\<open>.agents/state.json\<close>.  The fields filled from the trace log and from the
  source files are left out: the code that fills them catches every exception and does
  not touch the fields below.
\<close>

record session_trace =
  session_id :: string
  goal :: json
  iterations_used :: json
  completed :: bool
  success :: bool
  dod_total :: nat
  dod_passed :: nat
  dod_criteria :: json
  failure_history :: json
  started_at :: json
  completed_at :: json

definition test_pass_rate :: "session_trace \<Rightarrow> real" where
  "test_pass_rate t = (if dod_total t = 0 then 0 else real (dod_passed t) / real (dod_total t))"

text \<open>An entry of the sessions directory: its name, whether it is a directory, its marker.\<close>

record session_entry =
  name :: string
  is_dir :: bool
  state_file :: json_file

definition trace_of_state :: "string \<Rightarrow> json \<Rightarrow> error + session_trace" where
  "trace_of_state sid state =
     (case state of
        JObj members \<Rightarrow>
          (case dict_get (member_or members ''dod'' (JObj [])) ''criteria'' (JArr []) of
             Inl e \<Rightarrow> Inl e
           | Inr criteria \<Rightarrow>
          (case py_iter criteria of
             Inl e \<Rightarrow> Inl e
           | Inr cs \<Rightarrow>
          (case count_passed cs of
             Inl e \<Rightarrow> Inl e
           | Inr passed \<Rightarrow>
               Inr \<lparr>session_id = sid,
                    goal = member_or members ''goal'' (JStr ''''),
                    iterations_used = member_or members ''iteration'' (JNum 1),
                    completed = truthy (member_or members ''completed_at'' JNull),
                    success = (passed = length cs \<and> length cs > 0),
                    dod_total = length cs,
                    dod_passed = passed,
                    dod_criteria = criteria,
                    failure_history = member_or members ''failure_history'' (JArr []),
                    started_at = member_or members ''started_at'' (JStr ''''),
                    completed_at = member_or members ''completed_at'' (JStr '''')\<rparr>)))
      | _ \<Rightarrow> Inl AttributeError)"

definition parse_session :: "session_entry \<Rightarrow> error + session_trace option" where
  "parse_session session_dir =
     (case state_file session_dir of
        Missing \<Rightarrow> Inr None
      | Garbled \<Rightarrow> Inr None
      | Document state \<Rightarrow>
          (case trace_of_state (name session_dir) state of
             Inl e \<Rightarrow> Inl e
           | Inr t \<Rightarrow> Inr (Some t)))"

text \<open>
  The sessions directory is \<open>None\<close> when it does not exist, and the list of its entries
  otherwise; \<^verbatim>\<open>sorted(iterdir())\<close> orders the entries by name.
\<close>

fun new_sessions_of :: "string set \<Rightarrow> session_entry list \<Rightarrow> error + session_entry list" where
  "new_sessions_of processed [] = Inr []"
| "new_sessions_of processed (d # ds) =
     (if \<not> is_dir d then new_sessions_of processed ds
      else if name d \<in> processed then new_sessions_of processed ds
      else case state_file d of
        Missing \<Rightarrow> new_sessions_of processed ds
      | Garbled \<Rightarrow> new_sessions_of processed ds
      | Document state \<Rightarrow>
          (case dict_get state ''completed_at'' JNull of
             Inl e \<Rightarrow> Inl e
           | Inr done \<Rightarrow>
               (case new_sessions_of processed ds of
                  Inl e \<Rightarrow> Inl e
                | Inr rest \<Rightarrow> Inr (if truthy done then d # rest else rest))))"

definition find_new_sessions ::
  "string set \<Rightarrow> session_entry list option \<Rightarrow> error + session_entry list" where
  "find_new_sessions processed sessions_dir =
     (case sessions_dir of
        None \<Rightarrow> Inr []
      | Some entries \<Rightarrow> new_sessions_of processed (sort_key name entries))"

definition find_all_sessions :: "session_entry list option \<Rightarrow> session_entry list" where
  "find_all_sessions sessions_dir =
     (case sessions_dir of
        None \<Rightarrow> []
      | Some entries \<Rightarrow>
          filter (\<lambda>d. is_dir d \<and> state_file d \<noteq> Missing) (sort_key name entries))"

section \<open>The scheduler of the daemon\<close>

text \<open>
  A shallow embedding of \<^verbatim>\<open>SubconsciousDaemon._execute_next_task\<close> and of the four
  checks it makes, in \<^verbatim>\<open>subconscious-daemon/daemon.py\<close>.  What a cycle reads is the
  record \<open>daemon_env\<close>: the sessions directory, the scanner's set of processed sessions,
  the three cursor files of the state directory, and the clock.  Times are integers
  (microseconds); \<^verbatim>\<open>datetime.fromisoformat\<close> of the standard library is the parameter
  \<open>fromiso\<close>, which is \<open>None\<close> where the library raises \<^verbatim>\<open>ValueError\<close>; the time stamps
  are the naive local times that the daemon writes itself.
\<close>

record daemon_env =
  sessions_dir :: "session_entry list option"
  processed :: "string set"
  extracted_file :: json_file
  reanalysis_file :: json_file
  eval_file :: json_file
  now :: int

datatype task_priority =
    P0_REFLECT | P1_CURATE | P2_EXTRACT | P3_REANALYZE
  | P4_BENCHMARK | P5_PROMPT_EVOLVE | P6_TRAIN | P7_SELF_EVAL

fun priority_value :: "task_priority \<Rightarrow> nat" where
  "priority_value P0_REFLECT = 0"
| "priority_value P1_CURATE = 1"
| "priority_value P2_EXTRACT = 2"
| "priority_value P3_REANALYZE = 3"
| "priority_value P4_BENCHMARK = 4"
| "priority_value P5_PROMPT_EVOLVE = 5"
| "priority_value P6_TRAIN = 6"
| "priority_value P7_SELF_EVAL = 7"

text \<open>\<^verbatim>\<open>set(x)\<close>: the elements of a list or a dict cannot be hashed.\<close>

fun hashable :: "json \<Rightarrow> bool" where
  "hashable (JArr xs) = False"
| "hashable (JObj kvs) = False"
| "hashable _ = True"

definition py_set :: "json \<Rightarrow> error + json set" where
  "py_set x =
     (case py_iter x of
        Inl e \<Rightarrow> Inl e
      | Inr xs \<Rightarrow> if list_all hashable xs then Inr (set xs) else Inl TypeError)"

definition extracted_set :: "json_file \<Rightarrow> error + json set" where
  "extracted_set f =
     (case f of
        Missing \<Rightarrow> Inr {}
      | Garbled \<Rightarrow> Inr {}
      | Document data \<Rightarrow>
          (case dict_get data ''extracted'' (JArr []) of
             Inl e \<Rightarrow> Inl e
           | Inr v \<Rightarrow> py_set v))"

fun any_unextracted :: "json set \<Rightarrow> session_entry list \<Rightarrow> error + bool" where
  "any_unextracted extracted [] = Inr False"
| "any_unextracted extracted (d # ds) =
     (if JStr (name d) \<notin> extracted
      then (case parse_session d of
              Inl e \<Rightarrow> Inl e
            | Inr None \<Rightarrow> any_unextracted extracted ds
            | Inr (Some session) \<Rightarrow>
                if success session then Inr True else any_unextracted extracted ds)
      else any_unextracted extracted ds)"

definition has_unextracted_sessions :: "daemon_env \<Rightarrow> error + bool" where
  "has_unextracted_sessions env =
     (case extracted_set (extracted_file env) of
        Inl e \<Rightarrow> Inl e
      | Inr extracted \<Rightarrow> any_unextracted extracted (find_all_sessions (sessions_dir env)))"

text \<open>\<^verbatim>\<open>datetime.fromisoformat(v)\<close>: \<^verbatim>\<open>TypeError\<close> unless \<open>v\<close> is a string.\<close>

fun parse_time :: "(string \<Rightarrow> int option) \<Rightarrow> json \<Rightarrow> error + int option" where
  "parse_time fromiso (JStr s) = Inr (fromiso s)"
| "parse_time fromiso _ = Inl TypeError"

definition hours :: "int \<Rightarrow> int" where
  "hours h = h * 3600000000"

definition has_sessions_to_reanalyze ::
  "(string \<Rightarrow> int option) \<Rightarrow> daemon_env \<Rightarrow> error + bool" where
  "has_sessions_to_reanalyze fromiso env =
     (case reanalysis_file env of
        Missing \<Rightarrow> Inr (length (find_all_sessions (sessions_dir env)) > 0)
      | Garbled \<Rightarrow> Inr True
      | Document data \<Rightarrow>
          (case dict_get data ''epoch'' (JNum 0) of
             Inl e \<Rightarrow> Inl e
           | Inr last_epoch \<Rightarrow>
          (case dict_get data ''last_run'' (JStr '''') of
             Inl e \<Rightarrow> Inl e
           | Inr last_run \<Rightarrow>
               if truthy last_run
               then (case parse_time fromiso last_run of
                       Inl e \<Rightarrow> Inl e
                     | Inr None \<Rightarrow> Inr True
                     | Inr (Some lr) \<Rightarrow> if now env - lr < hours 24 then Inr False else Inr True)
               else Inr True)))"

text \<open>
  \<^verbatim>\<open>data["last_eval"]\<close> raises \<^verbatim>\<open>KeyError\<close> (caught) on a dict without the key and
  \<^verbatim>\<open>TypeError\<close> (not caught) on a value that is not a dict.
\<close>

definition is_eval_time :: "(string \<Rightarrow> int option) \<Rightarrow> daemon_env \<Rightarrow> error + bool" where
  "is_eval_time fromiso env =
     (case eval_file env of
        Missing \<Rightarrow> Inr True
      | Garbled \<Rightarrow> Inr True
      | Document data \<Rightarrow>
          (case data of
             JObj members \<Rightarrow>
               (case map_of members ''last_eval'' of
                  None \<Rightarrow> Inr True
                | Some v \<Rightarrow>
                    (case parse_time fromiso v of
                       Inl e \<Rightarrow> Inl e
                     | Inr None \<Rightarrow> Inr True
                     | Inr (Some last_eval) \<Rightarrow> Inr (now env - last_eval > hours 23)))
           | _ \<Rightarrow> Inl TypeError))"

text \<open>
  A cycle.  The handlers (\<^verbatim>\<open>_reflect_on_session\<close>, \<^verbatim>\<open>_extract_training_pairs\<close>,
  \<^verbatim>\<open>_reanalyze_sessions\<close>, \<^verbatim>\<open>_self_evaluate_playbook\<close>) call the language model and are
  not modelled: the result of \<open>execute_next_task\<close> is the list of the handlers that the
  cycle starts, in order, with the Boolean that the method returns.  An exception of a
  check leaves the method before any handler has started.
\<close>

datatype task = Reflect session_entry | Extract | Reanalyze | SelfEvaluate

fun task_class :: "task \<Rightarrow> task_priority" where
  "task_class (Reflect d) = P0_REFLECT"
| "task_class Extract = P2_EXTRACT"
| "task_class Reanalyze = P3_REANALYZE"
| "task_class SelfEvaluate = P7_SELF_EVAL"

definition execute_next_task ::
  "(string \<Rightarrow> int option) \<Rightarrow> daemon_env \<Rightarrow> error + task list \<times> bool" where
  "execute_next_task fromiso env =
     (case find_new_sessions (processed env) (sessions_dir env) of
        Inl e \<Rightarrow> Inl e
      | Inr (session_dir # others) \<Rightarrow> Inr ([Reflect session_dir], True)
      | Inr [] \<Rightarrow>
     (case has_unextracted_sessions env of
        Inl e \<Rightarrow> Inl e
      | Inr True \<Rightarrow> Inr ([Extract], True)
      | Inr False \<Rightarrow>
     (case has_sessions_to_reanalyze fromiso env of
        Inl e \<Rightarrow> Inl e
      | Inr True \<Rightarrow> Inr ([Reanalyze], True)
      | Inr False \<Rightarrow>
     (case is_eval_time fromiso env of
        Inl e \<Rightarrow> Inl e
      | Inr True \<Rightarrow> Inr ([SelfEvaluate], True)
      | Inr False \<Rightarrow> Inr ([], False)))))"

subsection \<open>Pending work, as specified\<close>

text \<open>
  The conditions under which the specification calls the work of a task class pending.
  They are stated over what a cycle reads, and not through the checks of the code.  A
  session is completed when it is a directory whose marker is an object with a
  non-empty \<^verbatim>\<open>completed_at\<close>, and successful when its trace has the success flag.
\<close>

definition session_dirs :: "daemon_env \<Rightarrow> session_entry list" where
  "session_dirs env = (case sessions_dir env of None \<Rightarrow> [] | Some entries \<Rightarrow> entries)"

definition completed_session :: "session_entry \<Rightarrow> bool" where
  "completed_session d =
     (is_dir d \<and>
      (case state_file d of
         Document (JObj members) \<Rightarrow> truthy (member_or members ''completed_at'' JNull)
       | _ \<Rightarrow> False))"

definition successful_session :: "session_entry \<Rightarrow> bool" where
  "successful_session d =
     (case parse_session d of Inr (Some session) \<Rightarrow> success session | _ \<Rightarrow> False)"

text \<open>The extracted-set, and the persisted time stamps of the last runs, where readable.\<close>

definition extracted_ids :: "daemon_env \<Rightarrow> json set" where
  "extracted_ids env = (case extracted_set (extracted_file env) of Inr ids \<Rightarrow> ids | Inl e \<Rightarrow> {})"

definition time_stamp :: "(string \<Rightarrow> int option) \<Rightarrow> json_file \<Rightarrow> string \<Rightarrow> int option" where
  "time_stamp fromiso f key =
     (case f of
        Document (JObj members) \<Rightarrow>
          (case map_of members key of Some (JStr s) \<Rightarrow> fromiso s | _ \<Rightarrow> None)
      | _ \<Rightarrow> None)"

text \<open>
  Reflect: a new, unprocessed, completed session exists.  Extract: a completed
  successful session exists whose id is not in the extracted-set.  Reanalyze: no
  reanalysis has run in the last 24 hours, and a completed session exists.
  Self-evaluate: no self-evaluation has run in the last 23 hours.
\<close>

fun spec_pending :: "(string \<Rightarrow> int option) \<Rightarrow> daemon_env \<Rightarrow> task_priority \<Rightarrow> bool" where
  "spec_pending fromiso env P0_REFLECT =
     (\<exists>d \<in> set (session_dirs env). completed_session d \<and> name d \<notin> processed env)"
| "spec_pending fromiso env P2_EXTRACT =
     (\<exists>d \<in> set (session_dirs env).
        completed_session d \<and> successful_session d \<and> JStr (name d) \<notin> extracted_ids env)"
| "spec_pending fromiso env P3_REANALYZE =
     ((case time_stamp fromiso (reanalysis_file env) ''last_run'' of
         None \<Rightarrow> True
       | Some t \<Rightarrow> hours 24 \<le> now env - t)
      \<and> (\<exists>d \<in> set (session_dirs env). completed_session d))"
| "spec_pending fromiso env P7_SELF_EVAL =
     (case time_stamp fromiso (eval_file env) ''last_eval'' of
        None \<Rightarrow> True
      | Some t \<Rightarrow> hours 23 < now env - t)"
| "spec_pending fromiso env _ = False"

section \<open>Examples and invariants\<close>

text \<open>
  The constructor of the dataclass \<^verbatim>\<open>Bullet\<close> with its defaults for the fields after
  the counters, and a playbook with given sections and fresh metadata.
\<close>

definition Bullet :: "string \<Rightarrow> string \<Rightarrow> string \<Rightarrow> int \<Rightarrow> int \<Rightarrow> bullet" where
  "Bullet ident text sec helpful harmful =
     \<lparr>bullet_id = ident, content = text, bsection = sec,
      helpful_count = helpful, harmful_count = harmful,
      source_session = [], added = [], last_referenced = [], last_validated = []\<rparr>"

definition playbook_of :: "(string \<times> bullet list) list \<Rightarrow> playbook" where
  "playbook_of secs =
     \<lparr>sections = secs, next_ids = [], total_sessions_analyzed = 0,
      total_deltas_applied = 0, total_bullets_pruned = 0\<rparr>"

text \<open>A section with two bullets of the same words and a third, different one.\<close>

definition near_duplicates :: playbook where
  "near_duplicates =
     playbook_of
       [(''general'',
         [Bullet ''GE-001'' ''Use absolute imports'' ''general'' 2 0,
          Bullet ''GE-002'' ''use  ABSOLUTE imports'' ''general'' 1 1,
          Bullet ''GE-003'' ''Pin the test fixtures'' ''general'' 0 0])]"

text \<open>
  Two bullets are dissimilar at a threshold when the comparison of \<^verbatim>\<open>deduplicate\<close> does
  not merge them.
\<close>

definition dissimilar :: "real \<Rightarrow> bullet \<Rightarrow> bullet \<Rightarrow> bool" where
  "dissimilar thr x y = (text_similarity (content x) (content y) < thr)"

text \<open>The invariant of the inner loop of \<^verbatim>\<open>deduplicate\<close>, after the indices below \<open>m\<close>.\<close>

definition inner_inv ::
  "real \<Rightarrow> string list \<Rightarrow> nat \<Rightarrow> nat \<Rightarrow> bullet list \<times> nat set \<Rightarrow> bullet list \<times> nat set \<Rightarrow> bool" where
  "inner_inv thr cs i m st st' =
     (map content (fst st') = cs \<and> snd st \<subseteq> snd st' \<and> snd st' \<subseteq> snd st \<union> {i..<m} \<and>
      (\<forall>b. i < b \<and> b < m \<and> i \<notin> snd st' \<and> b \<notin> snd st' \<longrightarrow>
           text_similarity (cs ! i) (cs ! b) < thr))"

text \<open>The invariant of the outer loop, after the indices below \<open>k\<close>.\<close>

definition outer_inv ::
  "real \<Rightarrow> string list \<Rightarrow> nat \<Rightarrow> bullet list \<times> nat set \<Rightarrow> bool" where
  "outer_inv thr cs k st =
     (map content (fst st) = cs \<and> snd st \<subseteq> {0..<length cs} \<and>
      (\<forall>a b. a < k \<and> a < b \<and> b < length cs \<and> a \<notin> snd st \<and> b \<notin> snd st \<longrightarrow>
             text_similarity (cs ! a) (cs ! b) < thr))"


subsection \<open>Pruning, as stated\<close>

text \<open>
  The condition for removing a bullet in the words of the specification: at least 5
  total references and, in addition, a quality ratio below the floor, or a last reference
  before the cutoff with fewer than 3 total references.
\<close>

definition stated_prune_condition :: "bullet \<Rightarrow> string \<Rightarrow> real \<Rightarrow> bool" where
  "stated_prune_condition b cutoff min_quality =
     (total_references b \<ge> 5 \<and>
      (quality_ratio b < min_quality \<or> (last_referenced b < cutoff \<and> total_references b < 3)))"

text \<open>
  The simpler condition: at least 5 total references and a quality ratio below the
  floor.  \<open>prune_below_floor\<close> is the pruning pass of \<^verbatim>\<open>prune_stale\<close> with this condition
  in the place of \<^verbatim>\<open>_should_prune\<close>; it needs no cutoff.
\<close>

definition floor_prune_condition :: "bullet \<Rightarrow> real \<Rightarrow> bool" where
  "floor_prune_condition b min_quality = (total_references b \<ge> 5 \<and> quality_ratio b < min_quality)"

fun prune_sections_below ::
  "real \<Rightarrow> (string \<times> bullet list) list \<Rightarrow> (string \<times> bullet list) list \<times> int" where
  "prune_sections_below min_quality [] = ([], 0)"
| "prune_sections_below min_quality ((section_name, bs) # rest) =
     (let kept = filter (\<lambda>b. \<not> floor_prune_condition b min_quality) bs;
          (rest', pruned) = prune_sections_below min_quality rest
      in ((section_name, kept) # rest', (int (length bs) - int (length kept)) + pruned))"

definition prune_below_floor :: "real \<Rightarrow> playbook \<Rightarrow> playbook \<times> int" where
  "prune_below_floor min_quality pb =
     (let (secs, pruned) = prune_sections_below min_quality (sections pb)
      in if pruned \<noteq> 0
         then (pb\<lparr>sections := secs, total_bullets_pruned := total_bullets_pruned pb + pruned\<rparr>,
               pruned)
         else (pb\<lparr>sections := secs\<rparr>, pruned))"

text \<open>A section with a new bullet, a harmful one and a helpful one.\<close>

definition mixed_quality :: playbook where
  "mixed_quality =
     playbook_of
       [(''general'',
         [Bullet ''GE-001'' ''Pin the test fixtures'' ''general'' 1 0,
          Bullet ''GE-002'' ''Retry every failing build'' ''general'' 1 5,
          Bullet ''GE-003'' ''Use absolute imports'' ''general'' 5 1])]"

text \<open>
  A section with three bullets of the same text: the first of middling quality, the
  second better, the third worse.
\<close>

definition three_alike :: playbook where
  "three_alike =
     playbook_of
       [(''general'',
         [Bullet ''GE-001'' ''Use absolute imports'' ''general'' 1 1,
          Bullet ''GE-002'' ''Use absolute imports'' ''general'' 1 0,
          Bullet ''GE-003'' ''Use absolute imports'' ''general'' 0 1])]"

text \<open>A section with a bullet of ten references, nine of them harmful, and a fresh bullet.\<close>

definition fresh_and_proven :: playbook where
  "fresh_and_proven =
     playbook_of
       [(''general'',
         [Bullet ''GE-001'' ''Retry every failing build'' ''general'' 1 9,
          Bullet ''GE-002'' ''Pin the test fixtures'' ''general'' 0 0])]"

text \<open>
  The value of the sort key where \<^verbatim>\<open>math.log1p\<close> does not raise, and the number of
  characters of the lines of a list of bullets.
\<close>

definition score_value :: "bullet \<Rightarrow> real" where
  "score_value b = quality_ratio b * ln (1 + real_of_int (total_references b + 1))"

definition line_chars :: "bullet list \<Rightarrow> int" where
  "line_chars bs = (\<Sum>b \<leftarrow> bs. int (length (bullet_line b)))"

text \<open>A playbook with two long bullets in a section that the planner reads.\<close>

definition design_notes :: playbook where
  "design_notes =
     playbook_of
       [(''architecture'',
         [Bullet ''AR-001'' ''Keep every route handler in its own module'' ''architecture'' 3 1,
          Bullet ''AR-002'' ''Create the database schema before the first request'' ''architecture'' 4 0]),
        (''test_generation'',
         [Bullet ''TG-001'' ''Pin the test fixtures'' ''test_generation'' 1 0])]"

text \<open>
  The filter of \<^verbatim>\<open>find_new_sessions\<close>: a directory that is not in the processed-set and
  whose marker is an object with a true \<^verbatim>\<open>completed_at\<close>.
\<close>

definition is_complete_new :: "string set \<Rightarrow> session_entry \<Rightarrow> bool" where
  "is_complete_new done_ids d =
     (is_dir d \<and> name d \<notin> done_ids \<and>
      (case state_file d of
         Document (JObj members) \<Rightarrow> truthy (member_or members ''completed_at'' JNull)
       | _ \<Rightarrow> False))"

text \<open>A session whose marker has no completion timestamp, and a completed one.\<close>

definition unfinished_session :: session_entry where
  "unfinished_session =
     \<lparr>name = ''session-001'', is_dir = True,
      state_file = Document (JObj [(''goal'', JStr ''Build a todo app'')])\<rparr>"

definition finished_session :: session_entry where
  "finished_session =
     \<lparr>name = ''session-000'', is_dir = True,
      state_file = Document (JObj [(''goal'', JStr ''Build a parser''),
                                   (''completed_at'', JStr ''2026-11-03T12:00:00'')])\<rparr>"

text \<open>
  Whether a criterion counts as passed, \<^verbatim>\<open>c.get("passed", False)\<close> being true in Python's
  sense, and whether a parsed value is an object.
\<close>

definition criterion_passed :: "json \<Rightarrow> bool" where
  "criterion_passed c =
     (case c of JObj kvs \<Rightarrow> truthy (member_or kvs ''passed'' (JBool False)) | _ \<Rightarrow> False)"

definition is_object :: "json \<Rightarrow> bool" where
  "is_object c = (case c of JObj kvs \<Rightarrow> True | _ \<Rightarrow> False)"

text \<open>
  A completed session with given criteria, two passed criteria, and a session whose
  marker is the JSON text \<^verbatim>\<open>[]\<close>.
\<close>

definition session_with_criteria :: "json list \<Rightarrow> session_entry" where
  "session_with_criteria cs =
     \<lparr>name = ''session-002'', is_dir = True,
      state_file = Document (JObj [(''goal'', JStr ''Build a todo app''),
                                   (''completed_at'', JStr ''2026-11-03T12:00:00''),
                                   (''dod'', JObj [(''criteria'', JArr cs)])])\<rparr>"

definition two_passed :: "json list" where
  "two_passed =
     [JObj [(''description'', JStr ''tests pass''), (''passed'', JBool True)],
      JObj [(''description'', JStr ''app starts''), (''passed'', JBool True)]]"

definition list_marker_session :: session_entry where
  "list_marker_session = \<lparr>name = ''session-003'', is_dir = True, state_file = Document (JArr [])\<rparr>"

text \<open>
  A completed session with a failed criterion, a clock that reads one time stamp as time
  0, and the state of a daemon one hour later, with that session unprocessed and a
  re-analysis and a self-evaluation recorded at time 0.
\<close>

definition failed_session :: session_entry where
  "failed_session =
     \<lparr>name = ''session-004'', is_dir = True,
      state_file = Document (JObj [(''goal'', JStr ''Build a todo app''),
                                   (''completed_at'', JStr ''2026-11-03T12:00:00''),
                                   (''dod'', JObj [(''criteria'',
                                      JArr [JObj [(''passed'', JBool False)]])])])\<rparr>"

definition clock :: "string \<Rightarrow> int option" where
  "clock s = (if s = ''2026-11-03T12:00:00'' then Some 0 else None)"

definition one_new_session :: daemon_env where
  "one_new_session =
     \<lparr>sessions_dir = Some [failed_session],
      processed = {},
      extracted_file = Missing,
      reanalysis_file = Document (JObj [(''epoch'', JNum 1),
                                        (''last_run'', JStr ''2026-11-03T12:00:00'')]),
      eval_file = Document (JObj [(''last_eval'', JStr ''2026-11-03T12:00:00'')]),
      now = hours 1\<rparr>"

text \<open>
  The state of a fresh daemon that finds one session directory, of a session that is not
  completed: nothing is processed or extracted, and no re-analysis and no
  self-evaluation is recorded.
\<close>

definition only_unfinished_session :: daemon_env where
  "only_unfinished_session =
     \<lparr>sessions_dir = Some [unfinished_session],
      processed = {},
      extracted_file = Missing,
      reanalysis_file = Missing,
      eval_file = Missing,
      now = hours 48\<rparr>"

section \<open>Deduplication: the loops\<close>

lemma content_merge_counts: "content (merge_counts s l) = content s"
  by (simp add: merge_counts_def)

lemma map_content_update:
  "content x = content (bs ! i) \<Longrightarrow> map content (bs[i := x]) = map content bs"
  by (cases "i < length bs") (simp_all add: map_update list_update_same_conv list_update_beyond)

lemma dedup_pair_length: "length (fst (dedup_pair thr i j st)) = length (fst st)"
  by (cases st) (simp add: dedup_pair_def)

lemma dedup_pair_content: "map content (fst (dedup_pair thr i j st)) = map content (fst st)"
  by (cases st) (simp add: dedup_pair_def map_content_update content_merge_counts)

lemma dedup_pair_mono: "snd st \<subseteq> snd (dedup_pair thr i j st)"
  by (cases st) (auto simp add: dedup_pair_def)

lemma dedup_pair_bound: "snd (dedup_pair thr i j st) \<subseteq> insert i (insert j (snd st))"
  by (cases st) (auto simp add: dedup_pair_def)

lemma dedup_pair_marks:
  "j \<notin> snd (dedup_pair thr i j st) \<Longrightarrow> i \<notin> snd (dedup_pair thr i j st) \<Longrightarrow>
   text_similarity (content (fst st ! i)) (content (fst st ! j)) < thr"
  by (cases st) (auto simp add: dedup_pair_def split: if_splits)

lemma inner_loop_inv:
  assumes "map content (fst st) = cs" "i < length cs" "m \<le> length cs"
  shows "inner_inv thr cs i m st (fold (dedup_pair thr i) [Suc i..<m] st)"
  using assms(3)
proof (induction m)
  case 0
  then show ?case using assms(1) by (simp add: inner_inv_def)
next
  case (Suc m)
  then have IH: "inner_inv thr cs i m st (fold (dedup_pair thr i) [Suc i..<m] st)" by simp
  show ?case
  proof (cases "Suc i \<le> m")
    case False
    then have "[Suc i..<Suc m] = []" by simp
    then show ?thesis using assms(1) by (auto simp add: inner_inv_def)
  next
    case True
    define s1 where "s1 = fold (dedup_pair thr i) [Suc i..<m] st"
    have step: "fold (dedup_pair thr i) [Suc i..<Suc m] st = dedup_pair thr i m s1"
      using True by (simp add: s1_def)
    have c1: "map content (fst s1) = cs" using IH by (simp add: inner_inv_def s1_def)
    have len: "length (fst s1) = length cs" using c1 by (metis length_map)
    have mlt: "m < length cs" using Suc.prems by simp
    have nth_i: "content (fst s1 ! i) = cs ! i"
      using c1 assms(2) len by (metis nth_map)
    have nth_m: "content (fst s1 ! m) = cs ! m"
      using c1 mlt len by (metis nth_map)
    have m1: "snd st \<subseteq> snd s1" using IH by (simp add: inner_inv_def s1_def)
    have b1: "snd s1 \<subseteq> snd st \<union> {i..<m}" using IH by (simp add: inner_inv_def s1_def)
    have a: "map content (fst (dedup_pair thr i m s1)) = cs"
      using c1 by (simp add: dedup_pair_content)
    have b: "snd st \<subseteq> snd (dedup_pair thr i m s1)"
      using m1 dedup_pair_mono[of s1 thr i m] by blast
    have c: "snd (dedup_pair thr i m s1) \<subseteq> snd st \<union> {i..<Suc m}"
    proof
      fix x assume "x \<in> snd (dedup_pair thr i m s1)"
      then have "x = i \<or> x = m \<or> x \<in> snd s1"
        using dedup_pair_bound[of thr i m s1] by blast
      then show "x \<in> snd st \<union> {i..<Suc m}"
        using b1 True by auto
    qed
    have d: "text_similarity (cs ! i) (cs ! b) < thr"
      if "i < b" "b < Suc m" "i \<notin> snd (dedup_pair thr i m s1)" "b \<notin> snd (dedup_pair thr i m s1)" for b
    proof (cases "b = m")
      case True
      then show ?thesis using dedup_pair_marks[of m thr i s1] that nth_i nth_m by simp
    next
      case False
      then have "b < m" using that by simp
      moreover have "i \<notin> snd s1" "b \<notin> snd s1"
        using that dedup_pair_mono[of s1 thr i m] by auto
      ultimately show ?thesis using IH that(1) by (simp add: inner_inv_def s1_def)
    qed
    show ?thesis unfolding step inner_inv_def using a b c d by blast
  qed
qed


lemma outer_step_inv:
  assumes "outer_inv thr cs k st" "k < length cs"
  shows "outer_inv thr cs (Suc k) (dedup_outer thr k st)"
proof (cases "k \<in> snd st")
  case True
  then have same: "dedup_outer thr k st = st" by (simp add: dedup_outer_def)
  have "text_similarity (cs ! a) (cs ! b) < thr"
    if "a < Suc k" "a < b" "b < length cs" "a \<notin> snd st" "b \<notin> snd st" for a b
  proof -
    have "a \<noteq> k" using True that(4) by blast
    then have "a < k" using that(1) by simp
    then show ?thesis using assms(1) that by (simp add: outer_inv_def)
  qed
  then show ?thesis using assms(1) unfolding same outer_inv_def by blast
next
  case False
  have c0: "map content (fst st) = cs" using assms(1) by (simp add: outer_inv_def)
  have len: "length (fst st) = length cs" using c0 by (metis length_map)
  define st' where "st' = fold (dedup_pair thr k) [Suc k..<length cs] st"
  have step: "dedup_outer thr k st = st'"
    using False len by (simp add: dedup_outer_def dedup_inner_def st'_def)
  have inv: "inner_inv thr cs k (length cs) st st'"
    unfolding st'_def using inner_loop_inv[OF c0 assms(2), of "length cs" thr] by simp
  have a: "map content (fst st') = cs" using inv by (simp add: inner_inv_def)
  have mono: "snd st \<subseteq> snd st'" using inv by (simp add: inner_inv_def)
  have "snd st' \<subseteq> snd st \<union> {k..<length cs}" using inv by (simp add: inner_inv_def)
  moreover have "snd st \<subseteq> {0..<length cs}" using assms(1) by (simp add: outer_inv_def)
  ultimately have b: "snd st' \<subseteq> {0..<length cs}" by auto
  have c: "text_similarity (cs ! a) (cs ! b) < thr"
    if "a < Suc k" "a < b" "b < length cs" "a \<notin> snd st'" "b \<notin> snd st'" for a b
  proof (cases "a = k")
    case True
    then show ?thesis using inv that by (simp add: inner_inv_def)
  next
    case False
    then have "a < k" using that(1) by simp
    moreover have "a \<notin> snd st" "b \<notin> snd st" using mono that by auto
    ultimately show ?thesis using assms(1) that by (simp add: outer_inv_def)
  qed
  show ?thesis unfolding step outer_inv_def using a b c by blast
qed

lemma outer_loop_inv:
  assumes "k \<le> length bs"
  shows "outer_inv thr (map content bs) k (fold (dedup_outer thr) [0..<k] (bs, {}))"
  using assms
proof (induction k)
  case 0
  then show ?case by (simp add: outer_inv_def)
next
  case (Suc k)
  then have "outer_inv thr (map content bs) k (fold (dedup_outer thr) [0..<k] (bs, {}))"
    by simp
  moreover have "k < length (map content bs)" using Suc.prems by simp
  ultimately show ?case using outer_step_inv by simp
qed

lemma dedup_marks_inv:
  "outer_inv thr (map content bs) (length bs) (dedup_marks thr bs)"
  unfolding dedup_marks_def by (rule outer_loop_inv) simp

lemma survivors_dissimilar:
  assumes "outer_inv thr cs (length bs') (bs', rm)"
  shows "sorted_wrt (dissimilar thr)
           (map snd (filter (\<lambda>(idx, b). idx \<notin> rm) (enumerate 0 bs')))"
proof -
  have c: "map content bs' = cs" using assms by (simp add: outer_inv_def)
  have len: "length cs = length bs'" using c by (metis length_map)
  let ?R = "\<lambda>p q. fst p \<notin> rm \<and> fst q \<notin> rm \<longrightarrow> dissimilar thr (snd p) (snd q)"
  have pair: "?R (enumerate 0 bs' ! a) (enumerate 0 bs' ! b)"
    if ab: "a < b" "b < length (enumerate 0 bs')" for a b
  proof -
    have b: "b < length bs'" and a: "a < length bs'" using ab by simp_all
    have ea: "enumerate 0 bs' ! a = (a, bs' ! a)" using a by (simp add: nth_enumerate_eq)
    have eb: "enumerate 0 bs' ! b = (b, bs' ! b)" using b by (simp add: nth_enumerate_eq)
    have ca: "content (bs' ! a) = cs ! a" using c a by (metis nth_map)
    have cb: "content (bs' ! b) = cs ! b" using c b by (metis nth_map)
    have "text_similarity (cs ! a) (cs ! b) < thr" if "a \<notin> rm" "b \<notin> rm"
    proof -
      have "\<forall>a b. a < length bs' \<and> a < b \<and> b < length cs \<and> a \<notin> rm \<and> b \<notin> rm \<longrightarrow>
             text_similarity (cs ! a) (cs ! b) < thr"
        using assms by (simp add: outer_inv_def)
      then show ?thesis using that a b ab(1) len by metis
    qed
    then show ?thesis
      by (simp add: ea eb dissimilar_def ca cb)
  qed
  have "sorted_wrt ?R (enumerate 0 bs')"
    unfolding sorted_wrt_iff_nth_less using pair by blast
  then have "sorted_wrt ?R (filter (\<lambda>(idx, b). idx \<notin> rm) (enumerate 0 bs'))"
    by (rule sorted_wrt_filter)
  then have "sorted_wrt (\<lambda>p q. dissimilar thr (snd p) (snd q))
               (filter (\<lambda>(idx, b). idx \<notin> rm) (enumerate 0 bs'))"
    by (rule sorted_wrt_mono_rel[rotated]) auto
  then show ?thesis by (simp add: sorted_wrt_map)
qed

lemma all_dissimilar:
  assumes "outer_inv thr cs (length bs') (bs', {})"
  shows "sorted_wrt (dissimilar thr) bs'"
proof -
  have "map snd (filter (\<lambda>(idx, b). idx \<notin> ({}::nat set)) (enumerate 0 bs')) = bs'"
    by (simp add: enumerate_eq_zip)
  then show ?thesis using survivors_dissimilar[OF assms] by simp
qed

lemma dedup_section_dissimilar:
  "2 \<le> length (fst (dedup_section thr bs)) \<Longrightarrow>
   sorted_wrt (dissimilar thr) (fst (dedup_section thr bs))"
proof -
  assume two: "2 \<le> length (fst (dedup_section thr bs))"
  obtain bs' rm where m: "dedup_marks thr bs = (bs', rm)" by (cases "dedup_marks thr bs")
  have inv: "outer_inv thr (map content bs) (length bs) (bs', rm)"
    using dedup_marks_inv[of thr bs] m by simp
  have "length bs' = length bs" using inv by (metis fst_conv length_map outer_inv_def)
  then have inv': "outer_inv thr (map content bs) (length bs') (bs', rm)" using inv by simp
  show ?thesis
  proof (cases "length bs < 2")
    case True
    then show ?thesis using two by (simp add: dedup_section_def)
  next
    case False
    show ?thesis
    proof (cases "rm = {}")
      case True
      then show ?thesis using False m all_dissimilar inv'
        by (simp add: dedup_section_def)
    next
      case rm: False
      then show ?thesis using False m survivors_dissimilar[OF inv']
        by (simp add: dedup_section_def)
    qed
  qed
qed


lemma dedup_pair_idle:
  assumes "text_similarity (content (bs ! i)) (content (bs ! j)) < thr"
  shows "dedup_pair thr i j (bs, {}) = (bs, {})"
  using assms by (simp add: dedup_pair_def)

lemma inner_loop_idle:
  assumes "sorted_wrt (dissimilar thr) bs" "m \<le> length bs"
  shows "fold (dedup_pair thr i) [Suc i..<m] (bs, {}) = (bs, {})"
  using assms(2)
proof (induction m)
  case 0
  then show ?case by simp
next
  case (Suc m)
  show ?case
  proof (cases "Suc i \<le> m")
    case False
    then show ?thesis by simp
  next
    case True
    have "dissimilar thr (bs ! i) (bs ! m)"
      using assms(1) True Suc.prems by (simp add: sorted_wrt_iff_nth_less)
    then have "dedup_pair thr i m (bs, {}) = (bs, {})"
      by (simp add: dedup_pair_idle dissimilar_def)
    then show ?thesis using Suc True by simp
  qed
qed

lemma outer_loop_idle:
  assumes "sorted_wrt (dissimilar thr) bs"
  shows "fold (dedup_outer thr) [0..<k] (bs, {}) = (bs, {})"
proof (induction k)
  case 0
  then show ?case by simp
next
  case (Suc k)
  have "dedup_outer thr k (bs, {}) = (bs, {})"
    using inner_loop_idle[OF assms, of "length bs" k]
    by (simp add: dedup_outer_def dedup_inner_def)
  then show ?case using Suc by simp
qed

lemma dedup_section_idle:
  assumes "length bs < 2 \<or> sorted_wrt (dissimilar thr) bs"
  shows "dedup_section thr bs = (bs, 0)"
proof (cases "length bs < 2")
  case True
  then show ?thesis by (simp add: dedup_section_def)
next
  case False
  then have "sorted_wrt (dissimilar thr) bs" using assms by blast
  then have "dedup_marks thr bs = (bs, {})"
    unfolding dedup_marks_def by (rule outer_loop_idle)
  then show ?thesis using False by (simp add: dedup_section_def)
qed

lemma dedup_section_twice:
  "dedup_section thr (fst (dedup_section thr bs)) = (fst (dedup_section thr bs), 0)"
proof (rule dedup_section_idle)
  show "length (fst (dedup_section thr bs)) < 2 \<or>
        sorted_wrt (dissimilar thr) (fst (dedup_section thr bs))"
    using dedup_section_dissimilar[of thr bs] by linarith
qed

lemma dedup_sections_twice:
  "dedup_sections thr (fst (dedup_sections thr secs)) = (fst (dedup_sections thr secs), 0)"
proof (induction secs)
  case Nil
  then show ?case by simp
next
  case (Cons s secs)
  obtain n bs where s: "s = (n, bs)" by (cases s)
  obtain bs' r where d: "dedup_section thr bs = (bs', r)" by (cases "dedup_section thr bs")
  obtain rest' rr where e: "dedup_sections thr secs = (rest', rr)"
    by (cases "dedup_sections thr secs")
  have "dedup_section thr bs' = (bs', 0)" using dedup_section_twice[of thr bs] d by simp
  moreover have "dedup_sections thr rest' = (rest', 0)" using Cons e by simp
  ultimately show ?case by (simp add: s d e)
qed

lemma deduplicate_sections:
  "sections (fst (deduplicate thr pb)) = fst (dedup_sections thr (sections pb))"
  by (simp add: deduplicate_def split: prod.splits)

lemma deduplicate_removed:
  "snd (deduplicate thr pb) = snd (dedup_sections thr (sections pb))"
  by (simp add: deduplicate_def split: prod.splits)


text \<open>
  C4.  Deduplication is idempotent: for every playbook and every similarity threshold, a
  second run of \<^verbatim>\<open>deduplicate\<close> at the same threshold, right after the first, removes no
  bullet and leaves the playbook as the first run left it.
\<close>

theorem deduplicate_idempotent:
  "snd (deduplicate thr (fst (deduplicate thr pb))) = 0
   \<and> fst (deduplicate thr (fst (deduplicate thr pb))) = fst (deduplicate thr pb)"
proof -
  let ?pb1 = "fst (deduplicate thr pb)"
  have tw: "dedup_sections thr (sections ?pb1) = (sections ?pb1, 0)"
    using dedup_sections_twice[of thr "sections pb"] by (simp add: deduplicate_sections)
  then show ?thesis by (simp add: deduplicate_def)
qed

theorem deduplicate_idempotent_witness:
  "snd (deduplicate 0.85 near_duplicates) = 1
   \<and> snd (deduplicate 0.85 (fst (deduplicate 0.85 near_duplicates))) = 0"
proof -
  have first_run: "snd (deduplicate 0.85 near_duplicates) = 1"
    by code_simp
  show ?thesis
    using first_run deduplicate_idempotent [of "0.85" near_duplicates] by simp
qed

section \<open>Pruning\<close>

lemma should_prune_stated:
  "should_prune b cutoff min_quality = stated_prune_condition b cutoff min_quality"
  by (auto simp add: should_prune_def stated_prune_condition_def)

lemma should_prune_floor:
  "should_prune b cutoff min_quality = floor_prune_condition b min_quality"
  by (auto simp add: should_prune_def floor_prune_condition_def)

lemma prune_sections_fst:
  "fst (prune_sections cutoff mq secs) =
     map (\<lambda>(n, bs). (n, filter (\<lambda>b. \<not> should_prune b cutoff mq) bs)) secs"
  by (induction secs) (auto simp add: Let_def split: prod.splits)

lemma length_filter_split:
  "int (length bs) - int (length (filter (\<lambda>b. \<not> P b) bs)) = int (length (filter P bs))"
  using sum_length_filter_compl[of P bs] by simp

lemma prune_sections_snd:
  "snd (prune_sections cutoff mq secs) =
     (\<Sum>(n, bs) \<leftarrow> secs. int (length (filter (\<lambda>b. should_prune b cutoff mq) bs)))"
  by (induction secs) (auto split: prod.splits simp add: Let_def length_filter_split)

lemma prune_sections_below_eq:
  "prune_sections cutoff mq secs = prune_sections_below mq secs"
  by (induction secs) (auto simp add: should_prune_floor Let_def split: prod.splits)

lemma low_references_kept:
  "map (\<lambda>(n, bs). (n, filter (\<lambda>b. total_references b < 5) bs))
     (map (\<lambda>(n, bs). (n, filter (\<lambda>b. \<not> should_prune b cutoff mq) bs)) secs) =
   map (\<lambda>(n, bs). (n, filter (\<lambda>b. total_references b < 5) bs)) secs"
proof -
  have "filter (\<lambda>b. total_references b < 5) (filter (\<lambda>b. \<not> should_prune b cutoff mq) bs) =
        filter (\<lambda>b. total_references b < 5) bs" for bs
    by (induction bs) (simp_all add: should_prune_def)
  then show ?thesis by (induction secs) auto
qed

lemma prune_stale_returns:
  assumes "cutoff_day today stale_days = Inr day"
  shows "\<exists>pb'. prune_stale isoformat today stale_days mq pb =
                 Inr (pb', snd (prune_sections (isoformat day) mq (sections pb)))
               \<and> sections pb' = fst (prune_sections (isoformat day) mq (sections pb))"
  using assms by (simp add: prune_stale_def Let_def split: prod.splits)

lemma prune_stale_raises:
  "cutoff_day today stale_days = Inl e \<Longrightarrow> prune_stale isoformat today stale_days mq pb = Inl e"
  by (simp add: prune_stale_def)

lemma prune_stale_floor:
  "prune_stale isoformat today stale_days mq pb =
     (case cutoff_day today stale_days of
        Inl e \<Rightarrow> Inl e
      | Inr day \<Rightarrow> Inr (prune_below_floor mq pb))"
  by (simp add: prune_stale_def prune_below_floor_def prune_sections_below_eq Let_def
      split: sum.splits prod.splits)

text \<open>
  C3, as amended.  For every bullet, every \<open>min_quality\<close> and every \<open>stale_days\<close> whose
  cutoff day exists, \<^verbatim>\<open>prune_stale\<close> removes the bullet iff it has at least 5 total
  references and either its quality ratio is below \<open>min_quality\<close>, or its last reference
  is before the cutoff and it has fewer than 3 total references: every section keeps
  exactly the bullets that do not meet this condition, in their order, and the number
  returned counts the others.  Where the cutoff day does not exist, \<^verbatim>\<open>prune_stale\<close> raises
  and removes nothing.  A bullet with fewer than 5 total references is never removed:
  whenever \<^verbatim>\<open>prune_stale\<close> returns, every section has the bullets of fewer than 5
  references that it had.
\<close>

theorem prune_stale_removes_iff:
  "(\<forall>day. cutoff_day today stale_days = Inr day \<longrightarrow>
      (\<exists>pb'. prune_stale isoformat today stale_days min_quality pb =
               Inr (pb',
                    \<Sum>(section_name, bs) \<leftarrow> sections pb.
                       int (length (filter (\<lambda>b. stated_prune_condition b (isoformat day)
                                                    min_quality) bs)))
             \<and> sections pb' =
                 map (\<lambda>(section_name, bs).
                        (section_name,
                         filter (\<lambda>b. \<not> stated_prune_condition b (isoformat day) min_quality)
                                bs))
                     (sections pb)))
   \<and> (\<forall>e. cutoff_day today stale_days = Inl e \<longrightarrow>
         prune_stale isoformat today stale_days min_quality pb = Inl e)
   \<and> (should_prune b cutoff min_quality \<longleftrightarrow> stated_prune_condition b cutoff min_quality)
   \<and> (total_references b < 5 \<longrightarrow> \<not> should_prune b cutoff min_quality)
   \<and> (\<forall>pb' n. prune_stale isoformat today stale_days min_quality pb = Inr (pb', n) \<longrightarrow>
         map (\<lambda>(section_name, bs). (section_name, filter (\<lambda>b. total_references b < 5) bs))
             (sections pb') =
         map (\<lambda>(section_name, bs). (section_name, filter (\<lambda>b. total_references b < 5) bs))
             (sections pb))"
proof -
  have a: "\<exists>pb'. prune_stale isoformat today stale_days min_quality pb =
               Inr (pb',
                    \<Sum>(section_name, bs) \<leftarrow> sections pb.
                       int (length (filter (\<lambda>b. stated_prune_condition b (isoformat day)
                                                    min_quality) bs)))
             \<and> sections pb' =
                 map (\<lambda>(section_name, bs).
                        (section_name,
                         filter (\<lambda>b. \<not> stated_prune_condition b (isoformat day) min_quality)
                                bs))
                     (sections pb)"
    if "cutoff_day today stale_days = Inr day" for day
    using prune_stale_returns [OF that, of isoformat min_quality pb]
    by (simp add: prune_sections_fst prune_sections_snd should_prune_stated)
  have b: "total_references b < 5 \<longrightarrow> \<not> should_prune b cutoff min_quality"
    by (simp add: should_prune_def)
  have c: "map (\<lambda>(section_name, bs). (section_name, filter (\<lambda>b. total_references b < 5) bs))
             (sections pb') =
           map (\<lambda>(section_name, bs). (section_name, filter (\<lambda>b. total_references b < 5) bs))
             (sections pb)"
    if "prune_stale isoformat today stale_days min_quality pb = Inr (pb', n)" for pb' n
  proof -
    have "\<exists>day. cutoff_day today stale_days = Inr day"
      using that prune_stale_raises [of today stale_days _ isoformat min_quality pb]
      by (cases "cutoff_day today stale_days") auto
    then obtain day where d: "cutoff_day today stale_days = Inr day" by blast
    have "sections pb' = fst (prune_sections (isoformat day) min_quality (sections pb))"
      using prune_stale_returns [OF d, of isoformat min_quality pb] that by auto
    then have eq: "sections pb' =
        map (\<lambda>(n, bs). (n, filter (\<lambda>b. \<not> should_prune b (isoformat day) min_quality) bs))
            (sections pb)"
      by (simp only: prune_sections_fst)
    show ?thesis unfolding eq by (rule low_references_kept)
  qed
  show ?thesis using a b c prune_stale_raises should_prune_stated by blast
qed

text \<open>
  C3, as stated, fails: on a day of 2026 and with \<open>stale_days = 800000\<close> the cutoff would
  lie before the year 1; \<^verbatim>\<open>prune_stale\<close> raises \<^verbatim>\<open>OverflowError\<close> and removes nothing,
  also not a bullet with six references of which five are harmful.
\<close>

theorem prune_stale_counterexample:
  "prune_stale (\<lambda>d. ''2026-10-21T03:00:00'') 739924 800000 0.3 mixed_quality = Inl OverflowError
   \<and> stated_prune_condition (Bullet ''GE-002'' ''Retry every failing build'' ''general'' 1 5)
       ''2026-10-21T03:00:00'' 0.3"
  by (simp add: prune_stale_def cutoff_day_def stated_prune_condition_def Bullet_def
      total_references_def quality_ratio_def)

theorem prune_stale_removes_iff_witness:
  "cutoff_day 739924 14 = Inr 739910
   \<and> total_references (Bullet ''GE-001'' ''Pin the test fixtures'' ''general'' 1 0) < 5
   \<and> (\<exists>pb'. prune_stale (\<lambda>d. ''2026-10-21T03:00:00'') 739924 14 0.3 mixed_quality = Inr (pb', 1)
          \<and> sections pb' =
              [(''general'',
                [Bullet ''GE-001'' ''Pin the test fixtures'' ''general'' 1 0,
                 Bullet ''GE-003'' ''Use absolute imports'' ''general'' 5 1])])"
proof -
  have c: "cutoff_day 739924 14 = Inr 739910" by (simp add: cutoff_day_def)
  have t: "total_references (Bullet ''GE-001'' ''Pin the test fixtures'' ''general'' 1 0) < 5"
    by (simp add: Bullet_def total_references_def)
  show ?thesis
    using c t prune_stale_removes_iff [of 739924 14 "\<lambda>d. ''2026-10-21T03:00:00''" "0.3"
        mixed_quality "Bullet ''GE-001'' ''Pin the test fixtures'' ''general'' 1 0"
        "''2026-10-21T03:00:00''"]
    by (simp add: mixed_quality_def playbook_of_def Bullet_def stated_prune_condition_def
        total_references_def quality_ratio_def)
qed

text \<open>
  C10.  The staleness branch of pruning is unreachable: \<^verbatim>\<open>_should_prune\<close> is true iff the
  bullet has at least 5 total references and a quality ratio below \<open>min_quality\<close>, for
  every cutoff, and the pruning of \<^verbatim>\<open>prune_stale\<close> is pruning by that simpler condition:
  \<^verbatim>\<open>prune_stale\<close> returns what \<open>prune_below_floor\<close> returns, once its cutoff is computed.
\<close>

theorem stale_branch_unreachable:
  "(should_prune b cutoff min_quality
      \<longleftrightarrow> total_references b \<ge> 5 \<and> quality_ratio b < min_quality)
   \<and> prune_sections cutoff min_quality secs = prune_sections_below min_quality secs
   \<and> prune_stale isoformat today stale_days min_quality pb =
       (case cutoff_day today stale_days of
          Inl e \<Rightarrow> Inl e
        | Inr day \<Rightarrow> Inr (prune_below_floor min_quality pb))"
proof -
  have "should_prune b cutoff min_quality
          \<longleftrightarrow> total_references b \<ge> 5 \<and> quality_ratio b < min_quality"
    by (auto simp add: should_prune_def)
  then show ?thesis
    using prune_sections_below_eq prune_stale_floor by blast
qed

theorem stale_branch_unreachable_witness:
  "should_prune (Bullet ''GE-002'' ''Retry every failing build'' ''general'' 1 5)
     ''2026-10-21T03:00:00'' 0.3
   \<and> prune_stale (\<lambda>d. ''2026-10-21T03:00:00'') 739924 14 0.3 mixed_quality =
       Inr (prune_below_floor 0.3 mixed_quality)
   \<and> snd (prune_below_floor 0.3 mixed_quality) = 1"
proof -
  have "snd (prune_below_floor 0.3 mixed_quality) = 1" by code_simp
  moreover have "cutoff_day 739924 14 = Inr 739910" by (simp add: cutoff_day_def)
  ultimately show ?thesis
    using stale_branch_unreachable
      [of "Bullet ''GE-002'' ''Retry every failing build'' ''general'' 1 5"
          "''2026-10-21T03:00:00''" "0.3" "sections mixed_quality"
          "\<lambda>d. ''2026-10-21T03:00:00''" 739924 14 mixed_quality]
    by (simp add: Bullet_def total_references_def quality_ratio_def)
qed

section \<open>The quality ratio\<close>

text \<open>
  C6, as amended.  For every bullet whose two counters are not negative, the quality
  ratio lies between 0 and 1, and it is exactly 0.5 when the counters sum to 0.
\<close>

theorem quality_ratio_range:
  assumes "0 \<le> helpful_count b" "0 \<le> harmful_count b"
  shows "0 \<le> quality_ratio b \<and> quality_ratio b \<le> 1
         \<and> (helpful_count b + harmful_count b = 0 \<longrightarrow> quality_ratio b = 0.5)"
proof (cases "helpful_count b + harmful_count b = 0")
  case True
  then show ?thesis by (simp add: quality_ratio_def)
next
  case False
  then have pos: "0 < real_of_int (helpful_count b + harmful_count b)" using assms by simp
  have q: "quality_ratio b =
      real_of_int (helpful_count b) / real_of_int (helpful_count b + harmful_count b)"
    using False by (simp add: quality_ratio_def)
  have a: "0 \<le> quality_ratio b" unfolding q using assms pos by simp
  have b: "quality_ratio b \<le> 1" unfolding q using assms pos by simp
  show ?thesis using a b False by simp
qed

text \<open>
  C6, as stated, fails twice.  A bullet with one helpful and one harmful reference has
  the quality ratio 0.5, and its counters do not sum to 0.  A bullet with the counters -1
  and 3, which the dataclass and a persisted document admit, has the quality ratio -0.5.
\<close>

theorem quality_ratio_half_counterexample:
  "\<not> (quality_ratio (Bullet ''GE-001'' ''Use absolute imports'' ''general'' 1 1) = 0.5
       \<longleftrightarrow> helpful_count (Bullet ''GE-001'' ''Use absolute imports'' ''general'' 1 1)
           + harmful_count (Bullet ''GE-001'' ''Use absolute imports'' ''general'' 1 1) = 0)
   \<and> quality_ratio (Bullet ''GE-002'' ''Pin the test fixtures'' ''general'' (- 1) 3) < 0"
  by (simp add: quality_ratio_def Bullet_def)

theorem quality_ratio_range_witness:
  "0 \<le> helpful_count (Bullet ''GE-001'' ''Use absolute imports'' ''general'' 3 1)
   \<and> 0 \<le> harmful_count (Bullet ''GE-001'' ''Use absolute imports'' ''general'' 3 1)
   \<and> 0 \<le> quality_ratio (Bullet ''GE-001'' ''Use absolute imports'' ''general'' 3 1)
   \<and> quality_ratio (Bullet ''GE-001'' ''Use absolute imports'' ''general'' 3 1) \<le> 1
   \<and> helpful_count (Bullet ''GE-003'' ''Pin the test fixtures'' ''general'' 0 0)
       + harmful_count (Bullet ''GE-003'' ''Pin the test fixtures'' ''general'' 0 0) = 0
   \<and> quality_ratio (Bullet ''GE-003'' ''Pin the test fixtures'' ''general'' 0 0) = 0.5"
proof -
  let ?b = "Bullet ''GE-001'' ''Use absolute imports'' ''general'' 3 1"
  let ?c = "Bullet ''GE-003'' ''Pin the test fixtures'' ''general'' 0 0"
  have h: "0 \<le> helpful_count ?b" "0 \<le> harmful_count ?b" by (simp_all add: Bullet_def)
  have k: "0 \<le> helpful_count ?c" "0 \<le> harmful_count ?c" by (simp_all add: Bullet_def)
  have z: "helpful_count ?c + harmful_count ?c = 0" by (simp add: Bullet_def)
  show ?thesis using h z quality_ratio_range [OF h] quality_ratio_range [OF k] by simp
qed

section \<open>Deduplication: merged counters\<close>

text \<open>
  C5.  \<^verbatim>\<open>deduplicate\<close> is specified to add the counters of a removed bullet to a
  survivor, and so to keep the sum of the helpful and of the harmful counters of a
  section.  On three bullets of the same text the code marks the first for removal in
  favour of the second, goes on comparing the first with the third, and adds the third's
  counters to the first, which is removed: one harmful reference is lost.
\<close>

theorem deduplicate_drops_counts:
  "sections (fst (deduplicate 0.85 three_alike)) =
     [(''general'', [Bullet ''GE-002'' ''Use absolute imports'' ''general'' 2 1])]
   \<and> snd (deduplicate 0.85 three_alike) = 2
   \<and> (\<Sum>b \<leftarrow> concat (map snd (sections three_alike)). harmful_count b) = 2
   \<and> (\<Sum>b \<leftarrow> concat (map snd (sections (fst (deduplicate 0.85 three_alike)))).
          harmful_count b) = 1"
  by code_simp

section \<open>Scores\<close>

lemma ln12_lt: "ln (12::real) < 5 * ln 2"
proof -
  have "ln (12::real) < ln 32" by simp
  moreover have "ln (32::real) = 5 * ln 2" using ln_realpow [of 2 5] by simp
  ultimately show ?thesis by simp
qed

lemma score_proven_bullet: "score (Bullet ''GE-001'' ''Retry every failing build'' ''general'' 1 9) = Inr (ln 12 / 10)"
  by (simp add: score_def log1p_def Bullet_def total_references_def quality_ratio_def)

lemma score_fresh_bullet: "score (Bullet ''GE-002'' ''Pin the test fixtures'' ''general'' 0 0) = Inr (ln 2 / 2)"
  by (simp add: score_def log1p_def Bullet_def total_references_def quality_ratio_def)

text \<open>
  C7.  Candidates are specified to be scored as
  \<open>quality_ratio * log(1 + total_references)\<close> and ranked by that score.  The code
  computes \<^verbatim>\<open>quality_ratio * math.log1p(total_references + 1)\<close>, which is
  \<open>quality_ratio * log(2 + total_references)\<close>, and the two rank differently: of a fresh
  bullet and a bullet with one helpful and nine harmful references, the code puts the
  fresh one first, and the documented score puts it last.
\<close>

theorem top_bullet_not_by_documented_score:
  "get_top_bullets 1 None fresh_and_proven =
     Inr [Bullet ''GE-002'' ''Pin the test fixtures'' ''general'' 0 0]
   \<and> documented_score (Bullet ''GE-002'' ''Pin the test fixtures'' ''general'' 0 0)
       < documented_score (Bullet ''GE-001'' ''Retry every failing build'' ''general'' 1 9)"
proof -
  have a: "get_top_bullets 1 None fresh_and_proven =
     Inr [Bullet ''GE-002'' ''Pin the test fixtures'' ''general'' 0 0]"
    using ln12_lt
    by (simp add: get_top_bullets_def fresh_and_proven_def playbook_of_def sort_by_score_desc_def
        score_proven_bullet score_fresh_bullet slice_to_def)
  have b: "documented_score (Bullet ''GE-002'' ''Pin the test fixtures'' ''general'' 0 0) = 0"
    by (simp add: documented_score_def Bullet_def total_references_def quality_ratio_def)
  have c: "documented_score (Bullet ''GE-001'' ''Retry every failing build'' ''general'' 1 9) = ln 11 / 10"
    by (simp add: documented_score_def Bullet_def total_references_def quality_ratio_def)
  have d: "0 < ln (11::real)" by simp
  show ?thesis unfolding b c using a d by simp
qed

section \<open>Export\<close>

lemma score_defined: "- 2 < total_references b \<Longrightarrow> score b = Inr (score_value b)"
  by (simp add: score_def log1p_def score_value_def)

lemma scored_defined:
  "\<forall>b \<in> set bs. - 2 < total_references b \<Longrightarrow> scored bs = Inr (map (\<lambda>b. (score_value b, b)) bs)"
  by (induction bs) (simp_all add: score_defined)

lemma insort_key_paired:
  "insort_key (\<lambda>kb. - fst kb) (f x, x) (map (\<lambda>b. (f b, b)) xs) =
   map (\<lambda>b. (f b, b)) (insort_key (\<lambda>b. - f b) x xs)"
  by (induction xs) simp_all

lemma sort_key_paired:
  "sort_key (\<lambda>kb. - fst kb) (map (\<lambda>b. (f b, b)) xs) =
   map (\<lambda>b. (f b, b)) (sort_key (\<lambda>b. - f b) xs)"
  by (induction xs) (simp_all add: insort_key_paired)

lemma sort_by_score_desc_defined:
  assumes "\<forall>b \<in> set bs. - 2 < total_references b"
  shows "sort_by_score_desc bs = Inr (sort_key (\<lambda>b. - score_value b) bs)"
  using scored_defined[OF assms]
  by (simp add: sort_by_score_desc_def sort_key_paired o_def)

lemma sorted_desc:
  "sorted_wrt (\<lambda>x y. score_value y \<le> score_value x) (sort_key (\<lambda>b. - score_value b) bs)"
proof -
  have "sorted (map (\<lambda>b. - score_value b) (sort_key (\<lambda>b. - score_value b) bs))"
    by (rule sorted_sort_key)
  then show ?thesis by (simp add: sorted_map)
qed

lemma append_lines_prefix:
  "\<exists>k \<le> length bs.
     append_lines budget c bs = map bullet_line (take k bs)
     \<and> (\<forall>j < k. c + line_chars (take (Suc j) bs) \<le> budget)
     \<and> (k < length bs \<longrightarrow> budget < c + line_chars (take (Suc k) bs))"
proof (induction bs arbitrary: c)
  case Nil
  then show ?case by simp
next
  case (Cons b bs)
  let ?n = "int (length (bullet_line b))"
  show ?case
  proof (cases "budget < c + ?n")
    case True
    then have "append_lines budget c (b # bs) = []" by simp
    then show ?thesis using True
      by (intro exI[of _ 0]) (simp add: line_chars_def)
  next
    case False
    obtain k where k: "k \<le> length bs"
      "append_lines budget (c + ?n) bs = map bullet_line (take k bs)"
      "\<forall>j < k. c + ?n + line_chars (take (Suc j) bs) \<le> budget"
      "k < length bs \<longrightarrow> budget < c + ?n + line_chars (take (Suc k) bs)"
      using Cons.IH[of "c + ?n"] by blast
    have a: "append_lines budget c (b # bs) = map bullet_line (take (Suc k) (b # bs))"
      using False k(2) by (simp add: Let_def)
    have b: "c + line_chars (take (Suc j) (b # bs)) \<le> budget" if "j < Suc k" for j
    proof (cases j)
      case 0
      then show ?thesis using False by (simp add: line_chars_def)
    next
      case (Suc i)
      then have "i < k" using that by simp
      then have "c + ?n + line_chars (take (Suc i) bs) \<le> budget" using k(3) by blast
      then show ?thesis using Suc by (simp add: line_chars_def)
    qed
    have c: "Suc k < length (b # bs) \<longrightarrow> budget < c + line_chars (take (Suc (Suc k)) (b # bs))"
      using k(4) by (simp add: line_chars_def add.assoc)
    show ?thesis
      using k(1) a b c by (intro exI[of _ "Suc k"]) simp
  qed
qed

lemma append_lines_short_budget: "budget < c + 6 \<Longrightarrow> append_lines budget c bs = []"
  by (cases bs) (simp_all add: Let_def bullet_line_def)

lemma length_header: "length header = 53"
  by (simp add: header_def)

text \<open>
  Where the sort key is defined for every candidate, \<^verbatim>\<open>export_for_agent\<close> returns the
  header followed by the whole lines of the first \<open>k\<close> candidates in the order of the
  sort: each of these lines fits in the budget of \<open>max_tokens * 4\<close> characters together
  with what precedes it, and the line of the next candidate, if there is one, does not.
  The header has 53 characters and a line at least 6, so that a budget of at most 14
  tokens leaves the header alone.
\<close>

lemma export_for_agent_whole_lines:
  assumes "\<forall>b \<in> set (relevant_bullets role pb). - 2 < total_references b"
  shows "(\<exists>bs k. export_for_agent role max_tokens pb =
                   Inr (header @ concat (map bullet_line (take k bs)))
            \<and> mset bs = mset (relevant_bullets role pb)
            \<and> sorted_wrt (\<lambda>x y. score_value y \<le> score_value x) bs
            \<and> k \<le> length bs
            \<and> (\<forall>j < k. int (length header) + line_chars (take (Suc j) bs) \<le> max_tokens * 4)
            \<and> (k < length bs \<longrightarrow>
                 max_tokens * 4 < int (length header) + line_chars (take (Suc k) bs)))
         \<and> (max_tokens \<le> 14 \<longrightarrow> export_for_agent role max_tokens pb = Inr header)"
proof -
  let ?bs = "sort_key (\<lambda>b. - score_value b) (relevant_bullets role pb)"
  have s: "sort_by_score_desc (relevant_bullets role pb) = Inr ?bs"
    using assms by (rule sort_by_score_desc_defined)
  have e: "export_for_agent role max_tokens pb =
             Inr (header @ concat (append_lines (max_tokens * 4) (int (length header)) ?bs))"
    by (simp add: export_for_agent_def s)
  obtain k where k: "k \<le> length ?bs"
    "append_lines (max_tokens * 4) (int (length header)) ?bs = map bullet_line (take k ?bs)"
    "\<forall>j < k. int (length header) + line_chars (take (Suc j) ?bs) \<le> max_tokens * 4"
    "k < length ?bs \<longrightarrow> max_tokens * 4 < int (length header) + line_chars (take (Suc k) ?bs)"
    using append_lines_prefix[of ?bs "max_tokens * 4" "int (length header)"] by blast
  have first: "\<exists>bs k. export_for_agent role max_tokens pb =
                   Inr (header @ concat (map bullet_line (take k bs)))
            \<and> mset bs = mset (relevant_bullets role pb)
            \<and> sorted_wrt (\<lambda>x y. score_value y \<le> score_value x) bs
            \<and> k \<le> length bs
            \<and> (\<forall>j < k. int (length header) + line_chars (take (Suc j) bs) \<le> max_tokens * 4)
            \<and> (k < length bs \<longrightarrow>
                 max_tokens * 4 < int (length header) + line_chars (take (Suc k) bs))"
    using e k sorted_desc[of "relevant_bullets role pb"]
    by (intro exI[of _ ?bs] exI[of _ k]) simp
  have second: "export_for_agent role max_tokens pb = Inr header" if "max_tokens \<le> 14"
  proof -
    have "append_lines (max_tokens * 4) (int (length header)) ?bs = []"
      using that by (intro append_lines_short_budget) (simp add: length_header)
    then show ?thesis using e by simp
  qed
  show ?thesis using first second by blast
qed

lemma export_for_agent_budget_ten:
  "export_for_agent ''planner'' 10 design_notes = Inr header"
proof -
  have rel: "relevant_bullets ''planner'' design_notes =
      [Bullet ''AR-001'' ''Keep every route handler in its own module'' ''architecture'' 3 1,
       Bullet ''AR-002'' ''Create the database schema before the first request'' ''architecture'' 4 0]"
    by (simp add: relevant_bullets_def role_sections_def design_notes_def playbook_of_def)
  have h1: "\<forall>b \<in> set (relevant_bullets ''planner'' design_notes). - 2 < total_references b"
    unfolding rel by (simp add: Bullet_def total_references_def)
  show ?thesis
    using export_for_agent_whole_lines [OF h1, of 10] by simp
qed

text \<open>
  C8.  \<^verbatim>\<open>export_for_agent\<close> is specified to append whole bullet lines in descending order
  of the score \<open>quality_ratio * log(1 + total_references)\<close> until the budget would be
  exceeded.  The lines are whole and the budget is kept, but the order is that of
  \<^verbatim>\<open>quality_ratio * math.log1p(total_references + 1)\<close>, the key of \<^verbatim>\<open>get_top_bullets\<close>: of
  a fresh bullet and a bullet with one helpful and nine harmful references, the export
  has the line of the fresh one first, which is ascending in the specified score.
\<close>

theorem export_not_by_documented_score:
  "export_for_agent ''general'' 4000 fresh_and_proven =
     Inr (header
          @ bullet_line (Bullet ''GE-002'' ''Pin the test fixtures'' ''general'' 0 0)
          @ bullet_line (Bullet ''GE-001'' ''Retry every failing build'' ''general'' 1 9))
   \<and> documented_score (Bullet ''GE-002'' ''Pin the test fixtures'' ''general'' 0 0)
       < documented_score (Bullet ''GE-001'' ''Retry every failing build'' ''general'' 1 9)"
proof -
  have rel: "relevant_bullets ''general'' fresh_and_proven =
      [Bullet ''GE-001'' ''Retry every failing build'' ''general'' 1 9,
       Bullet ''GE-002'' ''Pin the test fixtures'' ''general'' 0 0]"
    by (simp add: relevant_bullets_def role_sections_def fresh_and_proven_def playbook_of_def)
  have srt: "sort_by_score_desc (relevant_bullets ''general'' fresh_and_proven) =
      Inr [Bullet ''GE-002'' ''Pin the test fixtures'' ''general'' 0 0,
           Bullet ''GE-001'' ''Retry every failing build'' ''general'' 1 9]"
    unfolding rel using ln12_lt
    by (simp add: sort_by_score_desc_def score_proven_bullet score_fresh_bullet)
  have a: "export_for_agent ''general'' 4000 fresh_and_proven =
     Inr (header
          @ bullet_line (Bullet ''GE-002'' ''Pin the test fixtures'' ''general'' 0 0)
          @ bullet_line (Bullet ''GE-001'' ''Retry every failing build'' ''general'' 1 9))"
    by (simp add: export_for_agent_def srt length_header Let_def bullet_line_def Bullet_def)
  have b: "documented_score (Bullet ''GE-002'' ''Pin the test fixtures'' ''general'' 0 0) = 0"
    by (simp add: documented_score_def Bullet_def total_references_def quality_ratio_def)
  have c: "documented_score (Bullet ''GE-001'' ''Retry every failing build'' ''general'' 1 9)
             = ln 11 / 10"
    by (simp add: documented_score_def Bullet_def total_references_def quality_ratio_def)
  have d: "0 < ln (11::real)" by simp
  show ?thesis unfolding b c using a d by simp
qed

section \<open>Finding sessions\<close>

lemma new_sessions_of_filter:
  "new_sessions_of done_ids ds = Inr new \<Longrightarrow> new = filter (is_complete_new done_ids) ds"
proof (induction ds arbitrary: new)
  case Nil
  then show ?case by simp
next
  case (Cons d ds)
  note unfold = is_complete_new_def [of done_ids d]
  show ?case
  proof (cases "new_sessions_of done_ids ds")
    case (Inl e)
    then show ?thesis using Cons.prems
      by (auto simp add: unfold split: if_splits json_file.splits sum.splits)
  next
    case (Inr rest)
    then have r: "rest = filter (is_complete_new done_ids) ds" using Cons.IH by simp
    show ?thesis
    proof (cases "state_file d")
      case Missing
      then show ?thesis using Cons.prems Inr r
        by (auto simp add: unfold split: if_splits)
    next
      case Garbled
      then show ?thesis using Cons.prems Inr r
        by (auto simp add: unfold split: if_splits)
    next
      case (Document state)
      then show ?thesis using Cons.prems Inr r
        by (cases state) (auto simp add: unfold split: if_splits)
    qed
  qed
qed

lemma is_complete_new_has_marker:
  "is_complete_new done_ids d \<Longrightarrow> is_dir d \<and> state_file d \<noteq> Missing"
  by (auto simp add: is_complete_new_def)

text \<open>
  C9, as amended.  \<^verbatim>\<open>find_all_sessions\<close> ignores the processed-set and does not read the
  marker: it returns exactly the subdirectories whose marker file exists, ordered by
  directory name, and nothing when the sessions directory does not exist.  What
  \<^verbatim>\<open>find_new_sessions\<close> returns is the part of that list that passes its filter.
\<close>

theorem find_all_sessions_any_marker:
  "mset (find_all_sessions (Some entries)) =
     filter_mset (\<lambda>d. is_dir d \<and> state_file d \<noteq> Missing) (mset entries)
   \<and> sorted (map name (find_all_sessions (Some entries)))
   \<and> find_all_sessions None = []
   \<and> (\<forall>new. find_new_sessions done_ids (Some entries) = Inr new \<longrightarrow>
         new = filter (is_complete_new done_ids) (find_all_sessions (Some entries)))"
proof -
  have a: "mset (find_all_sessions (Some entries)) =
     filter_mset (\<lambda>d. is_dir d \<and> state_file d \<noteq> Missing) (mset entries)"
    by (simp add: find_all_sessions_def)
  have "sorted (map name (sort_key name entries))" by (rule sorted_sort_key)
  then have b: "sorted (map name (find_all_sessions (Some entries)))"
    by (simp add: find_all_sessions_def sorted_map sorted_wrt_filter)
  have c: "new = filter (is_complete_new done_ids) (find_all_sessions (Some entries))"
    if "find_new_sessions done_ids (Some entries) = Inr new" for new
  proof -
    have "new = filter (is_complete_new done_ids) (sort_key name entries)"
      using that new_sessions_of_filter by (simp add: find_new_sessions_def)
    also have "\<dots> = filter (is_complete_new done_ids) (find_all_sessions (Some entries))"
      using is_complete_new_has_marker
      by (auto simp add: find_all_sessions_def intro: filter_cong)
    finally show ?thesis .
  qed
  show ?thesis using a b c by (simp add: find_all_sessions_def)
qed

text \<open>
  C9, as stated, fails: a session directory whose marker has no completion timestamp is
  returned by \<^verbatim>\<open>find_all_sessions\<close>, and not by \<^verbatim>\<open>find_new_sessions\<close>.
\<close>

theorem find_all_sessions_counterexample:
  "find_all_sessions (Some [unfinished_session]) = [unfinished_session]
   \<and> find_new_sessions {} (Some [unfinished_session]) = Inr []
   \<and> state_file unfinished_session = Document (JObj [(''goal'', JStr ''Build a todo app'')])"
  by (simp add: find_all_sessions_def find_new_sessions_def unfinished_session_def member_or_def)

theorem find_all_sessions_any_marker_witness:
  "find_new_sessions {} (Some [unfinished_session, finished_session]) = Inr [finished_session]
   \<and> find_all_sessions (Some [unfinished_session, finished_session]) =
       [finished_session, unfinished_session]
   \<and> [finished_session] =
       filter (is_complete_new {})
         (find_all_sessions (Some [unfinished_session, finished_session]))"
proof -
  have n: "find_new_sessions {} (Some [unfinished_session, finished_session]) = Inr [finished_session]"
    by (simp add: find_new_sessions_def unfinished_session_def finished_session_def member_or_def
        less_eq_list_code)
  have a: "find_all_sessions (Some [unfinished_session, finished_session]) =
       [finished_session, unfinished_session]"
    by (simp add: find_all_sessions_def unfinished_session_def finished_session_def
        less_eq_list_code)
  show ?thesis
    using n a find_all_sessions_any_marker [of "[unfinished_session, finished_session]" "{}"]
    by simp
qed

section \<open>Parsing a session\<close>

lemma count_passed_objects:
  "list_all is_object cs \<Longrightarrow> count_passed cs = Inr (length (filter criterion_passed cs))"
proof (induction cs)
  case Nil
  then show ?case by simp
next
  case (Cons c cs)
  then obtain kvs where c: "c = JObj kvs" by (cases c) (simp_all add: is_object_def)
  show ?case using Cons by (simp add: c criterion_passed_def)
qed

lemma all_passed_iff:
  "length (filter P xs) = length xs \<longleftrightarrow> (\<forall>x \<in> set xs. P x)"
  by (metis filter_id_conv filter_True length_filter_less not_less_iff_gr_or_eq)

text \<open>
  On a marker of the documented shape, a JSON object in which \<^verbatim>\<open>dod\<close>, where present,
  is an object and \<^verbatim>\<open>dod.criteria\<close>, where present, is a list of objects, \<^verbatim>\<open>parse_session\<close> returns a trace whose success flag is true iff the
  list of criteria is not empty and every criterion's \<^verbatim>\<open>passed\<close> is true in Python's
  sense; \<^verbatim>\<open>dod_total\<close> and \<^verbatim>\<open>dod_passed\<close> count the criteria and the passed ones.  No
  criteria give no success and the pass rate 0; two criteria, both passed, give success,
  2 of 2 and the pass rate 1.
\<close>

lemma parse_session_success:
  assumes "state_file d = Document (JObj members)"
    and "dict_get (member_or members ''dod'' (JObj [])) ''criteria'' (JArr []) = Inr (JArr cs)"
    and "list_all is_object cs"
  shows "\<exists>t. parse_session d = Inr (Some t)
           \<and> (success t \<longleftrightarrow> cs \<noteq> [] \<and> (\<forall>c \<in> set cs. criterion_passed c))
           \<and> dod_total t = length cs
           \<and> dod_passed t = length (filter criterion_passed cs)
           \<and> (cs = [] \<longrightarrow> \<not> success t \<and> test_pass_rate t = 0)
           \<and> (length cs = 2 \<and> (\<forall>c \<in> set cs. criterion_passed c) \<longrightarrow>
                 success t \<and> dod_passed t = 2 \<and> dod_total t = 2 \<and> test_pass_rate t = 1)"
proof -
  let ?p = "length (filter criterion_passed cs)"
  obtain t where t: "trace_of_state (name d) (JObj members) = Inr t"
    "success t = (?p = length cs \<and> length cs > 0)" "dod_total t = length cs" "dod_passed t = ?p"
    using assms(2) count_passed_objects[OF assms(3)]
    by (simp add: trace_of_state_def)
  have p: "parse_session d = Inr (Some t)"
    using assms(1) t(1) by (simp add: parse_session_def)
  have s: "success t \<longleftrightarrow> cs \<noteq> [] \<and> (\<forall>c \<in> set cs. criterion_passed c)"
    using t(2) all_passed_iff[of criterion_passed cs] by auto
  have e: "cs = [] \<longrightarrow> \<not> success t \<and> test_pass_rate t = 0"
    using s t(3) by (simp add: test_pass_rate_def)
  have two: "length cs = 2 \<and> (\<forall>c \<in> set cs. criterion_passed c) \<longrightarrow>
                 success t \<and> dod_passed t = 2 \<and> dod_total t = 2 \<and> test_pass_rate t = 1"
  proof
    assume h: "length cs = 2 \<and> (\<forall>c \<in> set cs. criterion_passed c)"
    then have "?p = 2" using all_passed_iff[of criterion_passed cs] by simp
    moreover have "cs \<noteq> []" using h by auto
    ultimately show "success t \<and> dod_passed t = 2 \<and> dod_total t = 2 \<and> test_pass_rate t = 1"
      using h s t(3) t(4) by (simp add: test_pass_rate_def)
  qed
  show ?thesis using p s t(3) t(4) e two by blast
qed

text \<open>
  C1.  \<^verbatim>\<open>parse_session\<close> is specified to return a trace for every session directory
  whose completion marker parses as JSON, with the success flag decided by the criteria,
  and to return nothing only when the marker cannot be parsed.  The marker \<^verbatim>\<open>[]\<close> parses
  as JSON, and on it the code raises \<^verbatim>\<open>AttributeError\<close> at \<^verbatim>\<open>state.get\<close>: it catches
  \<^verbatim>\<open>JSONDecodeError\<close> alone.  \<^verbatim>\<open>find_new_sessions\<close> raises on the same directory.
\<close>

theorem parse_session_raises_on_list_marker:
  "state_file list_marker_session = Document (JArr [])
   \<and> parse_session list_marker_session = Inl AttributeError
   \<and> find_new_sessions {} (Some [list_marker_session]) = Inl AttributeError"
  by (simp add: parse_session_def list_marker_session_def trace_of_state_def
      find_new_sessions_def)

lemma parse_session_scenarios:
  "list_all is_object two_passed
   \<and> (\<exists>t. parse_session (session_with_criteria two_passed) = Inr (Some t)
          \<and> success t \<and> dod_passed t = 2 \<and> dod_total t = 2 \<and> test_pass_rate t = 1)
   \<and> (\<exists>t. parse_session (session_with_criteria []) = Inr (Some t)
          \<and> \<not> success t \<and> test_pass_rate t = 0)"
proof -
  have o: "list_all is_object two_passed" "list_all is_object []"
    by (simp_all add: two_passed_def is_object_def)
  have f: "state_file (session_with_criteria cs) =
      Document (JObj [(''goal'', JStr ''Build a todo app''),
                      (''completed_at'', JStr ''2026-11-03T12:00:00''),
                      (''dod'', JObj [(''criteria'', JArr cs)])])" for cs
    by (simp add: session_with_criteria_def)
  have g: "dict_get (member_or [(''goal'', JStr ''Build a todo app''),
                      (''completed_at'', JStr ''2026-11-03T12:00:00''),
                      (''dod'', JObj [(''criteria'', JArr cs)])] ''dod'' (JObj []))
             ''criteria'' (JArr []) = Inr (JArr cs)" for cs
    by (simp add: member_or_def)
  have p: "length two_passed = 2 \<and> (\<forall>c \<in> set two_passed. criterion_passed c)"
    by (simp add: two_passed_def criterion_passed_def member_or_def)
  show ?thesis
    using o(1) p parse_session_success [OF f g o(1)] parse_session_success [OF f g o(2)]
    by blast
qed

section \<open>The scheduler\<close>

lemma lower_classes:
  "(\<forall>c. priority_value c < priority_value P0_REFLECT \<longrightarrow> Q c) = True"
  "(\<forall>c. priority_value c < priority_value P2_EXTRACT \<longrightarrow> Q c) = (Q P0_REFLECT \<and> Q P1_CURATE)"
  "(\<forall>c. priority_value c < priority_value P3_REANALYZE \<longrightarrow> Q c)
     = (Q P0_REFLECT \<and> Q P1_CURATE \<and> Q P2_EXTRACT)"
  "(\<forall>c. priority_value c < priority_value P7_SELF_EVAL \<longrightarrow> Q c)
     = (Q P0_REFLECT \<and> Q P1_CURATE \<and> Q P2_EXTRACT \<and> Q P3_REANALYZE
        \<and> Q P4_BENCHMARK \<and> Q P5_PROMPT_EVOLVE \<and> Q P6_TRAIN)"
proof -
  show "(\<forall>c. priority_value c < priority_value P0_REFLECT \<longrightarrow> Q c) = True" by simp
  show "(\<forall>c. priority_value c < priority_value P2_EXTRACT \<longrightarrow> Q c) = (Q P0_REFLECT \<and> Q P1_CURATE)"
  proof
    assume a: "\<forall>c. priority_value c < priority_value P2_EXTRACT \<longrightarrow> Q c"
    show "Q P0_REFLECT \<and> Q P1_CURATE" using a[rule_format, of P0_REFLECT] a[rule_format, of P1_CURATE] by simp
  next
    assume a: "Q P0_REFLECT \<and> Q P1_CURATE"
    show "\<forall>c. priority_value c < priority_value P2_EXTRACT \<longrightarrow> Q c"
    proof (intro allI impI)
      fix c assume "priority_value c < priority_value P2_EXTRACT"
      then show "Q c" using a by (cases c) simp_all
    qed
  qed
  show "(\<forall>c. priority_value c < priority_value P3_REANALYZE \<longrightarrow> Q c)
     = (Q P0_REFLECT \<and> Q P1_CURATE \<and> Q P2_EXTRACT)"
  proof
    assume a: "\<forall>c. priority_value c < priority_value P3_REANALYZE \<longrightarrow> Q c"
    show "Q P0_REFLECT \<and> Q P1_CURATE \<and> Q P2_EXTRACT"
      using a[rule_format, of P0_REFLECT] a[rule_format, of P1_CURATE] a[rule_format, of P2_EXTRACT]
      by simp
  next
    assume a: "Q P0_REFLECT \<and> Q P1_CURATE \<and> Q P2_EXTRACT"
    show "\<forall>c. priority_value c < priority_value P3_REANALYZE \<longrightarrow> Q c"
    proof (intro allI impI)
      fix c assume "priority_value c < priority_value P3_REANALYZE"
      then show "Q c" using a by (cases c) simp_all
    qed
  qed
  show "(\<forall>c. priority_value c < priority_value P7_SELF_EVAL \<longrightarrow> Q c)
     = (Q P0_REFLECT \<and> Q P1_CURATE \<and> Q P2_EXTRACT \<and> Q P3_REANALYZE
        \<and> Q P4_BENCHMARK \<and> Q P5_PROMPT_EVOLVE \<and> Q P6_TRAIN)"
  proof
    assume a: "\<forall>c. priority_value c < priority_value P7_SELF_EVAL \<longrightarrow> Q c"
    show "Q P0_REFLECT \<and> Q P1_CURATE \<and> Q P2_EXTRACT \<and> Q P3_REANALYZE
        \<and> Q P4_BENCHMARK \<and> Q P5_PROMPT_EVOLVE \<and> Q P6_TRAIN"
      using a[rule_format, of P0_REFLECT] a[rule_format, of P1_CURATE] a[rule_format, of P2_EXTRACT]
        a[rule_format, of P3_REANALYZE] a[rule_format, of P4_BENCHMARK]
        a[rule_format, of P5_PROMPT_EVOLVE] a[rule_format, of P6_TRAIN]
      by simp
  next
    assume a: "Q P0_REFLECT \<and> Q P1_CURATE \<and> Q P2_EXTRACT \<and> Q P3_REANALYZE
        \<and> Q P4_BENCHMARK \<and> Q P5_PROMPT_EVOLVE \<and> Q P6_TRAIN"
    show "\<forall>c. priority_value c < priority_value P7_SELF_EVAL \<longrightarrow> Q c"
    proof (intro allI impI)
      fix c assume "priority_value c < priority_value P7_SELF_EVAL"
      then show "Q c" using a by (cases c) simp_all
    qed
  qed
qed

lemma is_complete_new_completed:
  "is_complete_new done_ids d \<longleftrightarrow> completed_session d \<and> name d \<notin> done_ids"
  by (auto simp add: is_complete_new_def completed_session_def)

lemma is_complete_new_fun:
  "is_complete_new done_ids = (\<lambda>d. completed_session d \<and> name d \<notin> done_ids)"
  by (rule ext) (rule is_complete_new_completed)

lemma find_new_sessions_filter:
  assumes "find_new_sessions (processed env) (sessions_dir env) = Inr new"
  shows "new = filter (\<lambda>d. completed_session d \<and> name d \<notin> processed env)
                 (sort_key name (session_dirs env))"
proof (cases "sessions_dir env")
  case None
  then show ?thesis using assms by (simp add: find_new_sessions_def session_dirs_def)
next
  case (Some entries)
  then have "new = filter (is_complete_new (processed env)) (sort_key name entries)"
    using assms new_sessions_of_filter by (simp add: find_new_sessions_def)
  then show ?thesis using Some by (simp add: session_dirs_def is_complete_new_fun)
qed

lemma reflect_pending_iff:
  assumes "find_new_sessions (processed env) (sessions_dir env) = Inr new"
  shows "spec_pending fromiso env P0_REFLECT \<longleftrightarrow> new \<noteq> []"
  unfolding find_new_sessions_filter [OF assms]
  by (auto simp add: filter_empty_conv)

lemma oldest_new_session:
  assumes "find_new_sessions (processed env) (sessions_dir env) = Inr (d # ds)"
  shows "d \<in> set (session_dirs env) \<and> completed_session d \<and> name d \<notin> processed env
         \<and> (\<forall>d' \<in> set (session_dirs env).
               completed_session d' \<and> name d' \<notin> processed env \<longrightarrow> name d \<le> name d')"
proof -
  let ?Q = "\<lambda>d. completed_session d \<and> name d \<notin> processed env"
  have eq: "d # ds = filter ?Q (sort_key name (session_dirs env))"
    using find_new_sessions_filter [OF assms] .
  have "d \<in> set (filter ?Q (sort_key name (session_dirs env)))"
    unfolding eq [symmetric] by simp
  then have a: "d \<in> set (session_dirs env) \<and> ?Q d" by simp
  have "sorted (map name (sort_key name (session_dirs env)))" by (rule sorted_sort_key)
  then have "sorted (map name (filter ?Q (sort_key name (session_dirs env))))"
    by (simp add: sorted_map sorted_wrt_filter)
  then have s: "sorted (map name (d # ds))" unfolding eq [symmetric] .
  have b: "name d \<le> name d'" if "d' \<in> set (session_dirs env)" "?Q d'" for d'
  proof -
    have "d' \<in> set (filter ?Q (sort_key name (session_dirs env)))" using that by simp
    then have "d' \<in> set (d # ds)" unfolding eq [symmetric] .
    then show ?thesis using s by auto
  qed
  show ?thesis using a b by blast
qed

lemma any_unextracted_False:
  "any_unextracted ids ds = Inr False \<Longrightarrow>
   \<forall>d \<in> set ds. JStr (name d) \<in> ids \<or> \<not> successful_session d"
proof (induction ds)
  case Nil
  then show ?case by simp
next
  case (Cons d ds)
  then show ?case
    by (auto simp add: successful_session_def split: if_splits sum.splits option.splits)
qed

lemma any_unextracted_True:
  "any_unextracted ids ds = Inr True \<Longrightarrow>
   \<exists>d \<in> set ds. JStr (name d) \<notin> ids \<and> successful_session d"
proof (induction ds)
  case Nil
  then show ?case by simp
next
  case (Cons d ds)
  then show ?case
    by (auto simp add: successful_session_def split: if_splits sum.splits option.splits)
qed

lemma set_find_all_sessions:
  "set (find_all_sessions (sessions_dir env)) =
     {d \<in> set (session_dirs env). is_dir d \<and> state_file d \<noteq> Missing}"
  by (auto simp add: find_all_sessions_def session_dirs_def split: option.splits)

lemma completed_has_marker: "completed_session d \<Longrightarrow> is_dir d \<and> state_file d \<noteq> Missing"
  by (auto simp add: completed_session_def)

lemma has_unextracted_ids:
  "has_unextracted_sessions env = Inr b \<Longrightarrow>
   any_unextracted (extracted_ids env) (find_all_sessions (sessions_dir env)) = Inr b"
  by (auto simp add: has_unextracted_sessions_def extracted_ids_def split: sum.splits)

lemma extract_not_pending:
  assumes "has_unextracted_sessions env = Inr False"
  shows "\<not> spec_pending fromiso env P2_EXTRACT"
  using any_unextracted_False [OF has_unextracted_ids [OF assms]]
    set_find_all_sessions [of env] completed_has_marker
  by auto

lemma extract_has_session:
  assumes "has_unextracted_sessions env = Inr True"
  shows "\<exists>d \<in> set (session_dirs env).
           is_dir d \<and> successful_session d \<and> JStr (name d) \<notin> extracted_ids env"
  using any_unextracted_True [OF has_unextracted_ids [OF assms]]
    set_find_all_sessions [of env]
  by auto

lemma reanalyze_overdue:
  assumes "has_sessions_to_reanalyze fromiso env = Inr True" "fromiso [] = None"
  shows "case time_stamp fromiso (reanalysis_file env) ''last_run'' of
           None \<Rightarrow> True
         | Some t \<Rightarrow> hours 24 \<le> now env - t"
proof (cases "reanalysis_file env")
  case Missing
  then show ?thesis by (simp add: time_stamp_def)
next
  case Garbled
  then show ?thesis by (simp add: time_stamp_def)
next
  case (Document data)
  show ?thesis
  proof (cases data)
    case (JObj members)
    show ?thesis
    proof (cases "map_of members ''last_run''")
      case None
      then show ?thesis using Document JObj by (simp add: time_stamp_def)
    next
      case (Some v)
      then show ?thesis using assms Document JObj
        by (cases v)
          (auto simp add: time_stamp_def has_sessions_to_reanalyze_def member_or_def
            split: if_splits option.splits)
    qed
  qed (use assms Document in \<open>simp_all add: has_sessions_to_reanalyze_def\<close>)
qed

lemma reanalyze_not_pending:
  assumes "has_sessions_to_reanalyze fromiso env = Inr False" "fromiso [] = None"
  shows "\<not> spec_pending fromiso env P3_REANALYZE"
proof (cases "reanalysis_file env")
  case Missing
  then have "find_all_sessions (sessions_dir env) = []"
    using assms(1) by (simp add: has_sessions_to_reanalyze_def)
  then have "\<forall>d \<in> set (session_dirs env). \<not> (is_dir d \<and> state_file d \<noteq> Missing)"
    using set_find_all_sessions [of env] by auto
  then show ?thesis using completed_has_marker by auto
next
  case Garbled
  then show ?thesis using assms(1) by (simp add: has_sessions_to_reanalyze_def)
next
  case (Document data)
  show ?thesis
  proof (cases data)
    case (JObj members)
    show ?thesis
    proof (cases "map_of members ''last_run''")
      case None
      then show ?thesis using assms Document JObj
        by (simp add: has_sessions_to_reanalyze_def member_or_def)
    next
      case (Some v)
      then show ?thesis using assms Document JObj
        by (cases v)
          (auto simp add: time_stamp_def has_sessions_to_reanalyze_def member_or_def
            split: if_splits option.splits)
    qed
  qed (use assms Document in \<open>simp_all add: has_sessions_to_reanalyze_def\<close>)
qed

lemma eval_pending_iff:
  assumes "is_eval_time fromiso env = Inr b"
  shows "spec_pending fromiso env P7_SELF_EVAL \<longleftrightarrow> b"
proof (cases "eval_file env")
  case Missing
  then show ?thesis using assms by (auto simp add: is_eval_time_def time_stamp_def)
next
  case Garbled
  then show ?thesis using assms by (auto simp add: is_eval_time_def time_stamp_def)
next
  case (Document data)
  show ?thesis
  proof (cases data)
    case (JObj members)
    show ?thesis
    proof (cases "map_of members ''last_eval''")
      case None
      then show ?thesis using assms Document JObj
        by (auto simp add: is_eval_time_def time_stamp_def)
    next
      case (Some v)
      then show ?thesis using assms Document JObj
        by (cases v) (auto simp add: is_eval_time_def time_stamp_def split: option.splits)
    qed
  qed (use assms Document in \<open>simp_all add: is_eval_time_def\<close>)
qed


lemma classes_before:
  "(\<forall>c. priority_value c < 2 \<longrightarrow> Q c) = (Q P0_REFLECT \<and> Q P1_CURATE)"
  "(\<forall>c. priority_value c < 3 \<longrightarrow> Q c) = (Q P0_REFLECT \<and> Q P1_CURATE \<and> Q P2_EXTRACT)"
  "(\<forall>c. priority_value c < 7 \<longrightarrow> Q c)
     = (Q P0_REFLECT \<and> Q P1_CURATE \<and> Q P2_EXTRACT \<and> Q P3_REANALYZE
        \<and> Q P4_BENCHMARK \<and> Q P5_PROMPT_EVOLVE \<and> Q P6_TRAIN)"
  using lower_classes [of Q] by simp_all

lemma cycle_cases:
  assumes "execute_next_task fromiso env = Inr (ts, executed)"
  obtains
    (runs_reflect) d ds where "find_new_sessions (processed env) (sessions_dir env) = Inr (d # ds)"
      and "ts = [Reflect d]" and "executed"
  | (runs_extract) "find_new_sessions (processed env) (sessions_dir env) = Inr []"
      and "has_unextracted_sessions env = Inr True" and "ts = [Extract]" and "executed"
  | (runs_reanalyze) "find_new_sessions (processed env) (sessions_dir env) = Inr []"
      and "has_unextracted_sessions env = Inr False"
      and "has_sessions_to_reanalyze fromiso env = Inr True" and "ts = [Reanalyze]"
      and "executed"
  | (runs_evaluate) "find_new_sessions (processed env) (sessions_dir env) = Inr []"
      and "has_unextracted_sessions env = Inr False"
      and "has_sessions_to_reanalyze fromiso env = Inr False"
      and "is_eval_time fromiso env = Inr True" and "ts = [SelfEvaluate]" and "executed"
  | (runs_nothing) "find_new_sessions (processed env) (sessions_dir env) = Inr []"
      and "has_unextracted_sessions env = Inr False"
      and "has_sessions_to_reanalyze fromiso env = Inr False"
      and "is_eval_time fromiso env = Inr False" and "ts = []" and "\<not> executed"
  using assms
  by (auto simp add: execute_next_task_def split: sum.splits list.splits bool.splits)

text \<open>
  C2, as amended.  In every cycle that returns, at most one task class executes, and no
  class executes while a class of higher priority, in the order Reflect, Extract,
  Reanalyze, Self-evaluate, has pending work; a cycle that executes nothing leaves no
  class with pending work.  Reflect executes exactly when it has pending work, on the
  unprocessed completed session of the least name, and Self-evaluate executes only when
  it has pending work.  Extract executes only when a successful session directory
  outside the extracted-set exists, and Reanalyze only when no re-analysis has run in
  the last 24 hours.  The clock reads no time stamp from the empty string.
\<close>

theorem execute_next_task_priority:
  assumes "execute_next_task fromiso env = Inr (ts, executed)" and "fromiso [] = None"
  shows "length ts \<le> 1 \<and> (executed \<longleftrightarrow> ts \<noteq> [])
    \<and> (\<forall>t \<in> set ts. \<forall>c. priority_value c < priority_value (task_class t) \<longrightarrow>
           \<not> spec_pending fromiso env c)
    \<and> (ts = [] \<longrightarrow> (\<forall>c. \<not> spec_pending fromiso env c))
    \<and> (spec_pending fromiso env P0_REFLECT \<longleftrightarrow> (\<exists>d. ts = [Reflect d]))
    \<and> (\<forall>d. ts = [Reflect d] \<longrightarrow>
           d \<in> set (session_dirs env) \<and> completed_session d \<and> name d \<notin> processed env
           \<and> (\<forall>d' \<in> set (session_dirs env).
                 completed_session d' \<and> name d' \<notin> processed env \<longrightarrow> name d \<le> name d'))
    \<and> (ts = [Extract] \<longrightarrow>
          (\<exists>d \<in> set (session_dirs env).
             is_dir d \<and> successful_session d \<and> JStr (name d) \<notin> extracted_ids env))
    \<and> (ts = [Reanalyze] \<longrightarrow>
          (case time_stamp fromiso (reanalysis_file env) ''last_run'' of
             None \<Rightarrow> True
           | Some t \<Rightarrow> hours 24 \<le> now env - t))
    \<and> (ts = [SelfEvaluate] \<longrightarrow> spec_pending fromiso env P7_SELF_EVAL)"
  using assms(1)
proof (cases rule: cycle_cases)
  case (runs_reflect d ds)
  have p0: "spec_pending fromiso env P0_REFLECT"
    using reflect_pending_iff [OF runs_reflect(1)] by simp
  show ?thesis
    using runs_reflect(2,3) p0 oldest_new_session [OF runs_reflect(1)] by simp
next
  case runs_extract
  have p0: "\<not> spec_pending fromiso env P0_REFLECT"
    using reflect_pending_iff [OF runs_extract(1)] by simp
  show ?thesis
    using runs_extract(3,4) p0 extract_has_session [OF runs_extract(2)]
    by (simp add: classes_before)
next
  case runs_reanalyze
  have p0: "\<not> spec_pending fromiso env P0_REFLECT"
    using reflect_pending_iff [OF runs_reanalyze(1)] by simp
  have p2: "\<not> spec_pending fromiso env P2_EXTRACT"
    using runs_reanalyze(2) by (rule extract_not_pending)
  show ?thesis
    using runs_reanalyze(4,5) p0 p2 reanalyze_overdue [OF runs_reanalyze(3) assms(2)]
    by (simp add: classes_before)
next
  case runs_evaluate
  have p0: "\<not> spec_pending fromiso env P0_REFLECT"
    using reflect_pending_iff [OF runs_evaluate(1)] by simp
  have p2: "\<not> spec_pending fromiso env P2_EXTRACT"
    using runs_evaluate(2) by (rule extract_not_pending)
  have p3: "\<not> spec_pending fromiso env P3_REANALYZE"
    using runs_evaluate(3) assms(2) by (rule reanalyze_not_pending)
  have p7: "spec_pending fromiso env P7_SELF_EVAL"
    using eval_pending_iff [OF runs_evaluate(4)] by simp
  show ?thesis
    using runs_evaluate(5,6) p0 p2 p3 p7
    by (simp add: classes_before)
next
  case runs_nothing
  have p0: "\<not> spec_pending fromiso env P0_REFLECT"
    using reflect_pending_iff [OF runs_nothing(1)] by simp
  have p2: "\<not> spec_pending fromiso env P2_EXTRACT"
    using runs_nothing(2) by (rule extract_not_pending)
  have p3: "\<not> spec_pending fromiso env P3_REANALYZE"
    using runs_nothing(3) assms(2) by (rule reanalyze_not_pending)
  have p7: "\<not> spec_pending fromiso env P7_SELF_EVAL"
    using eval_pending_iff [OF runs_nothing(4)] by simp
  have "\<not> spec_pending fromiso env c" for c
    using p0 p2 p3 p7 by (cases c) simp_all
  then show ?thesis
    using runs_nothing(5,6) p0 by simp
qed

text \<open>
  C2, as stated, fails: with one session that is not completed, and no re-analysis and no
  self-evaluation recorded, the cycle executes Reanalyze, a class without pending work
  (there is no completed session), and not Self-evaluate, the only class with pending
  work.
\<close>

theorem execute_next_task_counterexample:
  "execute_next_task clock only_unfinished_session = Inr ([Reanalyze], True)
   \<and> \<not> completed_session unfinished_session
   \<and> \<not> spec_pending clock only_unfinished_session P3_REANALYZE
   \<and> spec_pending clock only_unfinished_session P7_SELF_EVAL"
proof -
  have a: "find_all_sessions (sessions_dir only_unfinished_session) = [unfinished_session]"
    by (simp add: only_unfinished_session_def find_all_sessions_def unfinished_session_def)
  have n: "find_new_sessions (processed only_unfinished_session)
             (sessions_dir only_unfinished_session) = Inr []"
    by (simp add: only_unfinished_session_def find_new_sessions_def unfinished_session_def
        member_or_def)
  have ef: "extracted_file only_unfinished_session = Missing"
    and rf: "reanalysis_file only_unfinished_session = Missing"
    by (simp_all add: only_unfinished_session_def)
  have s: "\<exists>t. parse_session unfinished_session = Inr (Some t) \<and> \<not> success t"
    by (simp add: parse_session_def unfinished_session_def trace_of_state_def member_or_def)
  have u: "has_unextracted_sessions only_unfinished_session = Inr False"
    using s by (auto simp add: has_unextracted_sessions_def a ef extracted_set_def)
  have r: "has_sessions_to_reanalyze clock only_unfinished_session = Inr True"
    by (simp add: has_sessions_to_reanalyze_def rf a)
  have x: "execute_next_task clock only_unfinished_session = Inr ([Reanalyze], True)"
    by (simp add: execute_next_task_def n u r)
  have nc: "\<not> completed_session unfinished_session"
    by (simp add: completed_session_def unfinished_session_def member_or_def)
  have d: "session_dirs only_unfinished_session = [unfinished_session]"
    by (simp add: session_dirs_def only_unfinished_session_def)
  have p3: "\<not> spec_pending clock only_unfinished_session P3_REANALYZE"
    using nc by (simp add: d)
  have p7: "spec_pending clock only_unfinished_session P7_SELF_EVAL"
    by (simp add: time_stamp_def only_unfinished_session_def)
  show ?thesis using x nc p3 p7 by simp
qed

theorem execute_next_task_priority_witness:
  "clock [] = None
   \<and> execute_next_task clock one_new_session = Inr ([Reflect failed_session], True)
   \<and> spec_pending clock one_new_session P0_REFLECT
   \<and> \<not> spec_pending clock one_new_session P2_EXTRACT
   \<and> \<not> spec_pending clock one_new_session P3_REANALYZE
   \<and> \<not> spec_pending clock one_new_session P7_SELF_EVAL
   \<and> completed_session failed_session"
proof -
  have c: "clock [] = None" by (simp add: clock_def)
  have n: "find_new_sessions (processed one_new_session) (sessions_dir one_new_session)
     = Inr [failed_session]"
    by (simp add: one_new_session_def find_new_sessions_def failed_session_def member_or_def)
  have x: "execute_next_task clock one_new_session = Inr ([Reflect failed_session], True)"
    using n by (simp add: execute_next_task_def)
  have s: "\<not> successful_session failed_session"
    by (simp add: successful_session_def parse_session_def failed_session_def trace_of_state_def
        member_or_def)
  have d: "session_dirs one_new_session = [failed_session]"
    by (simp add: session_dirs_def one_new_session_def)
  have p2: "\<not> spec_pending clock one_new_session P2_EXTRACT"
    using s by (simp add: d)
  have p3: "\<not> spec_pending clock one_new_session P3_REANALYZE"
    by (simp add: time_stamp_def one_new_session_def clock_def hours_def)
  have p7: "\<not> spec_pending clock one_new_session P7_SELF_EVAL"
    by (simp add: time_stamp_def one_new_session_def clock_def hours_def)
  show ?thesis
    using c x p2 p3 p7 execute_next_task_priority [OF x c] by simp
qed

end
